(* ===== verification/Prelude.thy ===== *)
theory Prelude
  imports Main "HOL-Library.Char_ord" "HOL-Library.List_Lexorder" "HOL-Library.Multiset"
begin

text \<open>
  Shared vocabulary of the development: the collections of rewrite rules the component proofs
  use, the model of the standard library's stable sort (\<open>sort.SliceStable\<close>) with the contract
  that characterises it, and a few generic list facts.

  A Go string or byte slice is a HOL \<open>string\<close>: a \<open>char\<close> is one byte, so lengths, slices and
  the bytewise order of Go's \<open><\<close> (here \<open>Char_ord\<close> with \<open>List_Lexorder\<close>) are the code's own.
\<close>

named_theorems go_string "unfoldings of the Go string functions"
named_theorems block_simps "rewriting of container operations at a position"

section \<open>Error results\<close>

type_synonym 'a result = "string + 'a" \<comment> \<open>Go's \<open>(value, error)\<close>: \<open>Inl\<close> is the error text\<close>

section \<open>The stable sort of the standard library\<close>

text \<open>
  \<open>sort.SliceStable(items, less)\<close> sorts runs by insertion (an element moves left while it is less
  than its left neighbour) and merges them stably. The model is the insertion sort; the lemma
  \<open>stable_unique\<close> shows that for a less function meeting Go's contract (a strict weak order)
  every sorted and stable rearrangement is this very list, so nothing depends on the algorithm.
  The accumulator of \<open>slice_stable\<close> is the sorted prefix in reverse.
\<close>

fun ins_back :: "('a \<Rightarrow> 'a \<Rightarrow> bool) \<Rightarrow> 'a \<Rightarrow> 'a list \<Rightarrow> 'a list" where
  "ins_back lt x [] = [x]"
| "ins_back lt x (y # ys) = (if lt x y then y # ins_back lt x ys else x # y # ys)"

definition slice_stable :: "('a \<Rightarrow> 'a \<Rightarrow> bool) \<Rightarrow> 'a list \<Rightarrow> 'a list" where
  "slice_stable lt xs = rev (foldl (\<lambda>acc x. ins_back lt x acc) [] xs)"

lemma mset_ins_back [simp]: "mset (ins_back lt x ys) = add_mset x (mset ys)"
  by (induction ys) auto

lemma set_ins_back [simp]: "set (ins_back lt x ys) = insert x (set ys)"
  by (induction ys) auto

lemma mset_foldl_ins_back:
  "mset (foldl (\<lambda>acc x. ins_back lt x acc) acc xs) = mset acc + mset xs"
  by (induction xs arbitrary: acc) auto

lemma mset_slice_stable [simp]: "mset (slice_stable lt xs) = mset xs"
  by (simp add: slice_stable_def mset_foldl_ins_back)

lemma set_slice_stable [simp]: "set (slice_stable lt xs) = set xs"
  by (metis mset_slice_stable set_mset_mset)

lemma length_slice_stable [simp]: "length (slice_stable lt xs) = length xs"
  by (metis mset_slice_stable size_mset)

locale less_fun =
  fixes lt :: "'a \<Rightarrow> 'a \<Rightarrow> bool"
  assumes less_irrefl: "\<not> lt x x"
    and less_trans: "lt x y \<Longrightarrow> lt y z \<Longrightarrow> lt x z"
    and less_cover: "lt x z \<Longrightarrow> lt x y \<or> lt y z"
begin

lemma ins_back_sorted:
  "sorted_wrt (\<lambda>a b. \<not> lt a b) ys \<Longrightarrow> sorted_wrt (\<lambda>a b. \<not> lt a b) (ins_back lt x ys)"
proof (induction ys)
  case Nil
  then show ?case by simp
next
  case (Cons y ys)
  show ?case
  proof (cases "lt x y")
    case True
    then have "\<not> lt y x" using less_irrefl less_trans by blast
    with True Cons show ?thesis by simp
  next
    case False
    with Cons.prems show ?thesis by (auto dest: less_cover)
  qed
qed

lemma slice_stable_sorted: "sorted_wrt (\<lambda>a b. \<not> lt b a) (slice_stable lt xs)"
proof -
  have "sorted_wrt (\<lambda>a b. \<not> lt a b) acc \<Longrightarrow>
        sorted_wrt (\<lambda>a b. \<not> lt a b) (foldl (\<lambda>acc x. ins_back lt x acc) acc xs)" for acc
    by (induction xs arbitrary: acc) (auto intro: ins_back_sorted)
  then show ?thesis by (simp add: slice_stable_def sorted_wrt_rev)
qed

lemma filter_ins_back:
  assumes "\<And>a b. P a \<Longrightarrow> P b \<Longrightarrow> \<not> lt a b"
  shows "filter P (ins_back lt x ys) = (if P x then x # filter P ys else filter P ys)"
  using assms by (induction ys) auto

lemma slice_stable_stable:
  "filter (\<lambda>y. \<not> lt x y \<and> \<not> lt y x) (slice_stable lt xs) =
   filter (\<lambda>y. \<not> lt x y \<and> \<not> lt y x) xs"
proof -
  let ?P = "\<lambda>y. \<not> lt x y \<and> \<not> lt y x"
  have P: "\<And>a b. ?P a \<Longrightarrow> ?P b \<Longrightarrow> \<not> lt a b" using less_cover by blast
  have "filter ?P (foldl (\<lambda>acc x. ins_back lt x acc) acc xs) = rev (filter ?P xs) @ filter ?P acc"
    for acc
  proof (induction xs arbitrary: acc)
    case Nil
    show ?case by simp
  next
    case (Cons a xs)
    then show ?case by (simp add: filter_ins_back [OF P])
  qed
  then show ?thesis by (simp add: slice_stable_def rev_filter [symmetric])
qed

lemma stable_sorted_eq:
  assumes "sorted_wrt (\<lambda>a b. \<not> lt b a) xs" and "sorted_wrt (\<lambda>a b. \<not> lt b a) ys"
    and "\<And>x. filter (\<lambda>y. \<not> lt x y \<and> \<not> lt y x) xs = filter (\<lambda>y. \<not> lt x y \<and> \<not> lt y x) ys"
  shows "xs = ys"
  using assms
proof (induction xs arbitrary: ys)
  case Nil
  show ?case
  proof (cases ys)
    case (Cons b bs)
    then show ?thesis using Nil.prems(3) [of b] less_irrefl by simp
  qed simp
next
  case (Cons a as)
  obtain b bs where ys: "ys = b # bs"
    using Cons.prems(3) [of a] less_irrefl by (cases ys) auto
  have "b \<in> set (filter (\<lambda>y. \<not> lt b y \<and> \<not> lt y b) (a # as))"
    using Cons.prems(3) [of b] less_irrefl ys by simp
  then have b: "b \<in> set (a # as)" by (meson filter_is_subset subsetD)
  have "a \<in> set (filter (\<lambda>y. \<not> lt a y \<and> \<not> lt y a) (b # bs))"
    using Cons.prems(3) [of a, symmetric] less_irrefl ys by simp
  then have a: "a \<in> set (b # bs)" by (meson filter_is_subset subsetD)
  have "\<not> lt b a" "\<not> lt a b"
    using Cons.prems(1,2) a b less_irrefl ys by auto
  then have "a = b" using Cons.prems(3) [of a] less_irrefl ys by simp
  moreover have "as = bs"
  proof (rule Cons.IH)
    show "sorted_wrt (\<lambda>a b. \<not> lt b a) as" "sorted_wrt (\<lambda>a b. \<not> lt b a) bs"
      using Cons.prems(1,2) ys by auto
    show "filter (\<lambda>y. \<not> lt x y \<and> \<not> lt y x) as = filter (\<lambda>y. \<not> lt x y \<and> \<not> lt y x) bs" for x
      using Cons.prems(3) [of x] unfolding ys \<open>a = b\<close> filter.simps
      by (cases "\<not> lt x b \<and> \<not> lt b x") simp_all
  qed
  ultimately show ?case using ys by simp
qed

lemma stable_unique:
  assumes "sorted_wrt (\<lambda>a b. \<not> lt b a) ys"
    and "\<And>x. filter (\<lambda>y. \<not> lt x y \<and> \<not> lt y x) ys = filter (\<lambda>y. \<not> lt x y \<and> \<not> lt y x) xs"
  shows "ys = slice_stable lt xs"
  by (rule stable_sorted_eq [OF assms(1) slice_stable_sorted]) (simp add: assms(2) slice_stable_stable)

lemma slice_stable_id: "sorted_wrt (\<lambda>a b. \<not> lt b a) xs \<Longrightarrow> slice_stable lt xs = xs"
  by (rule stable_unique [symmetric]) simp_all

end

text \<open>For the strict part of a linear order the result is the library's sorted list.\<close>

interpretation linear_less: less_fun "(<) :: 'a::linorder \<Rightarrow> 'a \<Rightarrow> bool"
  by unfold_locales auto

lemma slice_stable_linorder: "slice_stable (<) xs = sort xs"
proof (rule properties_for_sort [symmetric])
  show "mset (slice_stable (<) xs) = mset xs" by simp
  show "sorted (slice_stable (<) xs)"
    using linear_less.slice_stable_sorted [of xs] by (simp add: not_less)
qed

section \<open>Lists cut at a separator\<close>

lemma takeWhile_sep [simp]: "c \<notin> set a \<Longrightarrow> takeWhile (\<lambda>x. x \<noteq> c) (a @ c # b) = a"
  and dropWhile_sep [simp]: "c \<notin> set a \<Longrightarrow> dropWhile (\<lambda>x. x \<noteq> c) (a @ c # b) = c # b"
  by (induction a) auto

end
