(* ===== verification/Utf8.thy ===== *)
theory Utf8
  imports Prelude
begin

text \<open>
  Runes and UTF-8 as the Go standard library reads and writes them: \<open>utf8.DecodeRune\<close> (used by
  \<open>bufio.Reader.ReadRune\<close>, by \<open>range\<close> over a string and by \<open>strings.Fields\<close>),
  \<open>utf8.AppendRune\<close> (used by \<open>string([]rune)\<close>) and \<open>unicode.IsSpace\<close>. A rune is its code point.
\<close>

type_synonym rune = nat

abbreviation CH :: "char \<Rightarrow> rune" where
  "CH c \<equiv> of_char c"

definition RuneError :: rune where
  "RuneError = 65533"

definition cont_byte :: "nat \<Rightarrow> bool" where
  "cont_byte b \<longleftrightarrow> 128 \<le> b \<and> b \<le> 191"

section \<open>Decoding\<close>

text \<open>
  One rune and its width from the bytes at the front; a byte that starts no valid sequence is
  \<open>RuneError\<close> of width 1. The ranges of the second byte exclude overlong forms, surrogates and
  code points beyond U+10FFFF.
\<close>

definition second_range :: "nat \<Rightarrow> nat \<times> nat" where
  "second_range b0 =
     (if b0 = 224 then (160, 191) else if b0 = 237 then (128, 159)
      else if b0 = 240 then (144, 191) else if b0 = 244 then (128, 143) else (128, 191))"

definition second_ok :: "nat \<Rightarrow> nat \<Rightarrow> bool" where
  "second_ok b0 b1 \<longleftrightarrow> fst (second_range b0) \<le> b1 \<and> b1 \<le> snd (second_range b0)"

fun decode_bytes :: "nat list \<Rightarrow> rune \<times> nat" where
  "decode_bytes [] = (RuneError, 0)"
| "decode_bytes (b0 # bs) =
     (if b0 < 128 then (b0, 1)
      else if b0 < 194 \<or> 244 < b0 then (RuneError, 1)
      else (case bs of
          [] \<Rightarrow> (RuneError, 1)
        | b1 # bs1 \<Rightarrow>
            if \<not> second_ok b0 b1 then (RuneError, 1)
            else if b0 < 224 then ((b0 mod 32) * 64 + b1 mod 64, 2)
            else (case bs1 of
                [] \<Rightarrow> (RuneError, 1)
              | b2 # bs2 \<Rightarrow>
                  if \<not> cont_byte b2 then (RuneError, 1)
                  else if b0 < 240 then ((b0 mod 16) * 4096 + (b1 mod 64) * 64 + b2 mod 64, 3)
                  else (case bs2 of
                      [] \<Rightarrow> (RuneError, 1)
                    | b3 # _ \<Rightarrow>
                        if \<not> cont_byte b3 then (RuneError, 1)
                        else ((b0 mod 8) * 262144 + (b1 mod 64) * 4096 + (b2 mod 64) * 64 + b3 mod 64, 4)))))"

definition decode_rune :: "string \<Rightarrow> rune \<times> nat" where
  "decode_rune s = decode_bytes (map of_char s)"

text \<open>A string as its runes, each with the bytes it was read from.\<close>

function rune_chunks :: "string \<Rightarrow> (rune \<times> string) list" where
  "rune_chunks [] = []"
| "rune_chunks (c # cs) =
     (let (r, w) = decode_rune (c # cs) in (r, c # take (w - 1) cs) # rune_chunks (drop (w - 1) cs))"
  by pat_completeness auto
termination
  by (relation "measure length") auto

lemma rune_chunks_ascii: "(of_char c :: nat) < 128 \<Longrightarrow> rune_chunks (c # s) = (of_char c, [c]) # rune_chunks s"
  by (simp add: decode_rune_def)

definition decode_runes :: "string \<Rightarrow> rune list" where
  "decode_runes s = map fst (rune_chunks s)"

lemma concat_rune_chunks [simp]: "concat (map snd (rune_chunks s)) = s"
  by (induction s rule: rune_chunks.induct) (auto simp: Let_def split: prod.splits)

lemma rune_chunks_nonempty: "(r, t) \<in> set (rune_chunks s) \<Longrightarrow> t \<noteq> []"
  by (induction s rule: rune_chunks.induct) (auto simp: Let_def split: prod.splits)

lemma length_chunks: "length (rune_chunks s) \<le> length s"
proof (induction s rule: rune_chunks.induct)
  case (2 c cs)
  then show ?case by (cases "decode_rune (c # cs)") fastforce
qed simp

lemma decode_runes_Nil [simp]: "decode_runes [] = []"
  by (simp add: decode_runes_def)

lemma decode_runes_eq_Nil [simp]: "decode_runes s = [] \<longleftrightarrow> s = []"
  by (cases s) (auto simp: decode_runes_def Let_def split: prod.splits)

section \<open>Encoding\<close>

definition valid_rune :: "rune \<Rightarrow> bool" where
  "valid_rune r \<longleftrightarrow> r < 55296 \<or> (57343 < r \<and> r \<le> 1114111)"

definition encode_code_point :: "nat \<Rightarrow> nat list" where
  "encode_code_point r =
     (if r < 128 then [r]
      else if r < 2048 then [192 + r div 64, 128 + r mod 64]
      else if r < 65536 then [224 + r div 4096, 128 + r div 64 mod 64, 128 + r mod 64]
      else [240 + r div 262144, 128 + r div 4096 mod 64, 128 + r div 64 mod 64, 128 + r mod 64])"

definition encode_rune :: "rune \<Rightarrow> string" where
  "encode_rune r = map char_of (encode_code_point (if valid_rune r then r else RuneError))"

definition encode_runes :: "rune list \<Rightarrow> string" where
  "encode_runes rs = concat (map encode_rune rs)"

lemma encode_runes_simps [simp]:
  "encode_runes [] = []"
  "encode_runes (r # rs) = encode_rune r @ encode_runes rs"
  "encode_runes (rs @ rs') = encode_runes rs @ encode_runes rs'"
  by (simp_all add: encode_runes_def)

lemma encode_rune_ascii: "r < 128 \<Longrightarrow> encode_rune r = [char_of r]"
  by (simp add: encode_rune_def encode_code_point_def valid_rune_def)

section \<open>Round trip\<close>

lemma base64_digits:
  fixes r :: nat
  shows "r = r div 64 * 64 + r mod 64"
    and "r div 64 = r div 4096 * 64 + r div 64 mod 64"
    and "r div 4096 = r div 262144 * 64 + r div 4096 mod 64"
  using mult_div_mod_eq [of 64 r] mult_div_mod_eq [of 64 "r div 64"] mult_div_mod_eq [of 64 "r div 4096"]
  by (simp_all add: div_mult2_eq [symmetric] mult.commute)

lemma decode_four:
  assumes "second_ok b0 b1" "240 \<le> b0 \<and> b0 \<le> 244" "cont_byte b2 \<and> cont_byte b3"
    and "b0 mod 8 = q" "b1 mod 64 = z" "b2 mod 64 = y" "b3 mod 64 = x"
  shows "decode_bytes ([b0, b1, b2, b3] @ s) = (q * 262144 + z * 4096 + y * 64 + x, 4)"
  using assms by simp

text \<open>By the number of bytes of the encoding.\<close>

lemma decode_encode_two:
  assumes "128 \<le> r" "r < 2048"
  shows "decode_bytes (encode_code_point r @ s) = (r, length (encode_code_point r))"
proof -
  have two: "decode_bytes ([192 + q, 128 + x] @ s) = (q * 64 + x, 2)" if "q < 32" "2 \<le> q" "x < 64" for q x
    using that by (simp add: second_ok_def second_range_def mod_add_eq [symmetric])
  have "r div 64 < 32" "2 \<le> r div 64" using assms by linarith+
  then have "decode_bytes ([192 + r div 64, 128 + r mod 64] @ s) = (r, 2)"
    using two [of "r div 64" "r mod 64"] base64_digits(1) [of r] by (simp del: decode_bytes.simps)
  moreover have "encode_code_point r = [192 + r div 64, 128 + r mod 64]"
    using assms by (simp add: encode_code_point_def)
  ultimately show ?thesis by (simp del: decode_bytes.simps)
qed

lemma decode_encode_three:
  assumes "valid_rune r" "2048 \<le> r" "r < 65536"
  shows "decode_bytes (encode_code_point r @ s) = (r, length (encode_code_point r))"
proof -
  let ?p = "r div 4096" and ?y = "r div 64 mod 64" and ?x = "r mod 64"
  have lt: "?x < 64" "?y < 64" by simp_all
  note d = base64_digits [of r]
  have p: "?p < 16" using assms by linarith
  have "?p = 0 \<Longrightarrow> 32 \<le> ?y" "?p = 13 \<Longrightarrow> ?y \<le> 31"
    using d lt assms unfolding valid_rune_def by linarith+
  then have ok: "second_ok (224 + ?p) (128 + ?y)"
    using p lt by (auto simp: second_ok_def second_range_def)
  have "cont_byte (128 + ?x)" using lt by (simp add: cont_byte_def)
  moreover have "(224 + ?p) mod 16 = ?p" "(128 + ?y) mod 64 = ?y" "(128 + ?x) mod 64 = ?x"
    using p lt by (simp_all add: mod_add_eq [symmetric])
  moreover have "?p * 4096 + ?y * 64 + ?x = r" using d by linarith
  ultimately show ?thesis using assms p ok by (simp add: encode_code_point_def)
qed

lemma decode_encode_four:
  assumes "valid_rune r" "65536 \<le> r"
  shows "decode_bytes (encode_code_point r @ s) = (r, length (encode_code_point r))"
proof -
  let ?q = "r div 262144" and ?z = "r div 4096 mod 64" and ?y = "r div 64 mod 64" and ?x = "r mod 64"
  have lt: "?x < 64" "?y < 64" "?z < 64" by simp_all
  note d = base64_digits [of r]
  have r: "r \<le> 1114111" using assms by (simp add: valid_rune_def)
  then have q: "?q \<le> 4" by linarith
  have "?q = 0 \<Longrightarrow> 16 \<le> ?z" "?q = 4 \<Longrightarrow> ?z \<le> 15"
    using d lt assms(2) r by linarith+
  then have ok: "second_ok (240 + ?q) (128 + ?z)"
    using q lt by (auto simp: second_ok_def second_range_def)
  have m: "(240 + ?q) mod 8 = ?q" "(128 + ?z) mod 64 = ?z" "(128 + ?y) mod 64 = ?y" "(128 + ?x) mod 64 = ?x"
    using q lt by (simp_all add: mod_add_eq [symmetric])
  have "?q * 262144 + ?z * 4096 + ?y * 64 + ?x = r" using d by linarith
  moreover have "encode_code_point r = [240 + ?q, 128 + ?z, 128 + ?y, 128 + ?x]"
    using assms(2) by (simp add: encode_code_point_def)
  ultimately show ?thesis
    using decode_four [OF ok _ _ m, of s] q lt(1,2) by (simp add: cont_byte_def del: decode_bytes.simps)
qed

lemma decode_encode_code_point:
  assumes "valid_rune r"
  shows "decode_bytes (encode_code_point r @ s) = (r, length (encode_code_point r))"
proof -
  consider "r < 128" | "128 \<le> r" "r < 2048" | "2048 \<le> r" "r < 65536" | "65536 \<le> r" by linarith
  then show ?thesis
    by cases (simp add: encode_code_point_def, intro decode_encode_two, simp_all add: decode_encode_three decode_encode_four assms del: decode_bytes.simps)
qed

lemma encode_code_point_byte:
  assumes "valid_rune r" and "b \<in> set (encode_code_point r)"
  shows "b < 256"
proof -
  have cont: "128 + x mod 64 < 256" for x :: nat
    using mod_less_divisor [of 64 x] by linarith
  have "r < 2048 \<Longrightarrow> 192 + r div 64 < 256" "r < 65536 \<Longrightarrow> 224 + r div 4096 < 256"
    "240 + r div 262144 < 256"
    using assms(1) unfolding valid_rune_def by linarith+
  then show ?thesis
    using assms(2) cont [of r] cont [of "r div 64"] cont [of "r div 4096"]
    unfolding encode_code_point_def by (auto simp only: set_simps insert_iff empty_iff split: if_splits)
qed

lemma length_encode_rune_pos [simp]: "encode_rune r \<noteq> []"
  by (simp add: encode_rune_def encode_code_point_def)

lemma decode_encode_rune:
  assumes "valid_rune r"
  shows "decode_rune (encode_rune r @ s) = (r, length (encode_rune r))"
proof -
  have "map of_char (encode_rune r) = encode_code_point r"
    using assms encode_code_point_byte [OF assms]
    by (auto simp: encode_rune_def of_char_of intro!: map_idI)
  moreover have "length (encode_rune r) = length (encode_code_point r)"
    using assms by (simp add: encode_rune_def)
  ultimately show ?thesis
    using decode_encode_code_point [OF assms] by (simp add: decode_rune_def)
qed

lemma rune_chunks_encode:
  assumes "valid_rune r"
  shows "rune_chunks (encode_rune r @ s) = (r, encode_rune r) # rune_chunks s"
proof -
  obtain c cs where "encode_rune r = c # cs" by (cases "encode_rune r") simp_all
  then show ?thesis using decode_encode_rune [OF assms, of s] by simp
qed

lemma decode_encode_append:
  "\<forall>r \<in> set rs. valid_rune r \<Longrightarrow> decode_runes (encode_runes rs @ s) = rs @ decode_runes s"
  by (induction rs) (simp_all add: decode_runes_def rune_chunks_encode)

lemma decode_encode_runes [simp]: "\<forall>r \<in> set rs. valid_rune r \<Longrightarrow> decode_runes (encode_runes rs) = rs"
  using decode_encode_append [of rs "[]"] by simp

text \<open>
  Well-formed UTF-8: the encoding of some valid runes. Every ASCII string is.
\<close>

definition valid_utf8 :: "string \<Rightarrow> bool" where
  "valid_utf8 s \<longleftrightarrow> (\<forall>r \<in> set (decode_runes s). valid_rune r) \<and> encode_runes (decode_runes s) = s"

lemma valid_utf8_encode: "\<forall>r \<in> set rs. valid_rune r \<Longrightarrow> valid_utf8 (encode_runes rs)"
  by (simp add: valid_utf8_def)

lemma decode_append: "valid_utf8 s \<Longrightarrow> decode_runes (s @ t) = decode_runes s @ decode_runes t"
  using decode_encode_append [of "decode_runes s" t] by (simp add: valid_utf8_def)

lemma valid_utf8_append: "valid_utf8 s \<Longrightarrow> valid_utf8 t \<Longrightarrow> valid_utf8 (s @ t)"
  by (auto simp: valid_utf8_def decode_append)

lemma encode_decode [simp]: "valid_utf8 s \<Longrightarrow> encode_runes (decode_runes s) = s"
  by (simp add: valid_utf8_def)

lemma ascii_runes:
  assumes "\<forall>c \<in> set s. (of_char c :: nat) < 128"
  shows "decode_runes s = map of_char s" and "valid_utf8 s"
proof -
  have s: "encode_runes (map of_char s) = s"
    using assms by (induction s) (simp_all add: encode_rune_ascii)
  have v: "\<forall>r \<in> set (map of_char s). valid_rune r"
    using assms by (auto simp: valid_rune_def)
  show "decode_runes s = map of_char s" using decode_encode_runes [OF v] s by simp
  show "valid_utf8 s" using valid_utf8_encode [OF v] s by simp
qed

text \<open>An ASCII byte occurs in valid UTF-8 exactly where its rune does.\<close>

lemma ascii_in_encode_rune:
  assumes "valid_rune r" and "(of_char c :: nat) < 128"
  shows "count_list (encode_rune r) c = (if of_char c = r then 1 else 0)"
proof (cases "r < 128")
  case True
  then show ?thesis using of_char_of [of r] by (auto simp: encode_rune_ascii)
next
  case False
  have "128 \<le> b" if "b \<in> set (encode_code_point r)" for b
    using that False unfolding encode_code_point_def by (auto simp only: set_simps insert_iff empty_iff split: if_splits)
  moreover have "b < 256" if "b \<in> set (encode_code_point r)" for b
    using that encode_code_point_byte assms(1) by blast
  ultimately have "c \<notin> set (encode_rune r)"
    using assms by (auto simp: encode_rune_def of_char_of not_less [symmetric])
  then show ?thesis using False assms(2) by (auto simp: count_list_0_iff)
qed

lemma count_ascii:
  assumes "valid_utf8 s" and "(of_char c :: nat) < 128"
  shows "count_list s c = count_list (decode_runes s) (of_char c)"
proof -
  have "count_list (encode_runes rs) c = count_list rs (of_char c)"
    if "\<forall>r \<in> set rs. valid_rune r" for rs
    using that assms(2) by (induction rs) (simp_all add: ascii_in_encode_rune)
  then show ?thesis using assms(1) unfolding valid_utf8_def by metis
qed

lemma mem_ascii:
  "valid_utf8 s \<Longrightarrow> (of_char c :: nat) < 128 \<Longrightarrow> c \<in> set s \<longleftrightarrow> of_char c \<in> set (decode_runes s)"
  using count_ascii [of s c] by (metis count_list_0_iff)

section \<open>White space\<close>

text \<open>\<open>unicode.IsSpace\<close>: the code points with the property White_Space.\<close>

definition IsSpace :: "rune \<Rightarrow> bool" where
  "IsSpace r \<longleftrightarrow> r \<in> {9, 10, 11, 12, 13, 32, 133, 160, 5760, 8232, 8233, 8239, 8287, 12288} \<or>
     (8192 \<le> r \<and> r \<le> 8202)"

end
