(* ===== verification/GoStrings.thy ===== *)
theory GoStrings
  imports Utf8
begin

text \<open>
  The functions of packages \<open>strings\<close> and \<open>strconv\<close> that the program calls, on byte strings.
  \<open>Fields\<close> cuts at runes with \<open>unicode.IsSpace\<close>, the others work on bytes.
\<close>

section \<open>Prefixes, suffixes, search\<close>

definition HasPrefix :: "string \<Rightarrow> string \<Rightarrow> bool" where
  "HasPrefix s p \<longleftrightarrow> take (length p) s = p"

definition HasSuffix :: "string \<Rightarrow> string \<Rightarrow> bool" where
  "HasSuffix s p \<longleftrightarrow> length p \<le> length s \<and> drop (length s - length p) s = p"

definition CutPrefix :: "string \<Rightarrow> string \<Rightarrow> string \<times> bool" where
  "CutPrefix s p = (if HasPrefix s p then (drop (length p) s, True) else (s, False))"

definition ContainsAny :: "string \<Rightarrow> string \<Rightarrow> bool" where
  "ContainsAny s chars \<longleftrightarrow> list_ex (\<lambda>c. c \<in> set chars) s"

definition IndexByte :: "string \<Rightarrow> char \<Rightarrow> int" where
  "IndexByte s c =
     (let n = length (takeWhile (\<lambda>x. x \<noteq> c) s) in if n < length s then int n else -1)"

definition Repeat :: "string \<Rightarrow> nat \<Rightarrow> string" where
  "Repeat s n = concat (replicate n s)"

fun Join :: "string list \<Rightarrow> string \<Rightarrow> string" where
  "Join [] sep = []"
| "Join [x] sep = x"
| "Join (x # y # xs) sep = x @ sep @ Join (y # xs) sep"

text \<open>\<open>strings.ReplaceAll\<close> for a non-empty \<open>old\<close>: occurrences from the left, not overlapping.\<close>

function ReplaceAll :: "string \<Rightarrow> string \<Rightarrow> string \<Rightarrow> string" where
  "ReplaceAll [] old new = []"
| "ReplaceAll (c # cs) old new =
     (if old \<noteq> [] \<and> HasPrefix (c # cs) old then new @ ReplaceAll (drop (length old - 1) cs) old new
      else c # ReplaceAll cs old new)"
  by pat_completeness auto
termination
  by (relation "measure (\<lambda>(s, old, new). length s)") auto

text \<open>\<open>strings.Replace\<close> with the limit 1.\<close>

fun Replace1 :: "string \<Rightarrow> string \<Rightarrow> string \<Rightarrow> string" where
  "Replace1 [] old new = (if old = [] then new else [])"
| "Replace1 (c # cs) old new =
     (if HasPrefix (c # cs) old then new @ drop (length old) (c # cs) else c # Replace1 cs old new)"

lemma Replace1_prefix: "HasPrefix s old \<Longrightarrow> Replace1 s old new = new @ drop (length old) s"
  by (cases s) (auto simp: HasPrefix_def)

text \<open>\<open>strings.Split\<close> and \<open>strings.SplitN(s, sep, 2)\<close> at a one-byte separator.\<close>

fun Split :: "string \<Rightarrow> char \<Rightarrow> string list" where
  "Split [] sep = [[]]"
| "Split (c # cs) sep =
     (if c = sep then [] # Split cs sep
      else (case Split cs sep of [] \<Rightarrow> [[c]] | p # ps \<Rightarrow> (c # p) # ps))"

definition SplitN2 :: "string \<Rightarrow> char \<Rightarrow> string list" where
  "SplitN2 s sep =
     (if sep \<in> set s
      then [takeWhile (\<lambda>c. c \<noteq> sep) s, tl (dropWhile (\<lambda>c. c \<noteq> sep) s)] else [s])"

lemma HasPrefix_append [simp]: "HasPrefix (p @ s) p"
  by (simp add: HasPrefix_def)

lemma HasPrefix_iff: "HasPrefix s p \<longleftrightarrow> (\<exists>t. s = p @ t)"
  by (metis HasPrefix_append HasPrefix_def append_take_drop_id)

lemma HasPrefix_single [simp]: "HasPrefix s [c] \<longleftrightarrow> s \<noteq> [] \<and> hd s = c"
  by (cases s) (auto simp: HasPrefix_def)

lemma ReplaceAll_single:
  "ReplaceAll s [c] new = concat (map (\<lambda>x. if x = c then new else [x]) s)"
  by (induction s) auto

lemma ReplaceAll_absent: "c \<notin> set s \<Longrightarrow> ReplaceAll s [c] new = s"
  by (induction s) auto

lemma IndexByte_range: "-1 \<le> IndexByte s c \<and> IndexByte s c < int (length s)"
  by (auto simp: IndexByte_def Let_def)

lemma IndexByte_nonneg:
  assumes "0 \<le> IndexByte s c"
  shows "s = take (nat (IndexByte s c)) s @ c # drop (nat (IndexByte s c) + 1) s"
    and "c \<notin> set (take (nat (IndexByte s c)) s)"
proof -
  let ?n = "length (takeWhile (\<lambda>x. x \<noteq> c) s)"
  have n: "?n < length s" and i: "nat (IndexByte s c) = ?n"
    using assms by (auto simp: IndexByte_def Let_def split: if_splits)
  have "s ! ?n = c" using nth_length_takeWhile [OF n] by simp
  then show "s = take (nat (IndexByte s c)) s @ c # drop (nat (IndexByte s c) + 1) s"
    unfolding i using id_take_nth_drop [OF n] by simp
  show "c \<notin> set (take (nat (IndexByte s c)) s)"
    unfolding i by (metis (mono_tags, lifting) set_takeWhileD takeWhile_eq_take)
qed

lemma IndexByte_first: "c \<notin> set a \<Longrightarrow> IndexByte (a @ c # b) c = int (length a)"
  by (simp add: IndexByte_def)

lemma SplitN2_eq: "SplitN2 s sep = [a, b] \<longleftrightarrow> s = a @ sep # b \<and> sep \<notin> set a"
proof
  assume h: "SplitN2 s sep = [a, b]"
  then have in_s: "sep \<in> set s" and a: "a = takeWhile (\<lambda>c. c \<noteq> sep) s"
    and b: "b = tl (dropWhile (\<lambda>c. c \<noteq> sep) s)"
    by (auto simp: SplitN2_def split: if_splits)
  have d: "dropWhile (\<lambda>c. c \<noteq> sep) s = sep # b"
    using in_s b by (metis (mono_tags, lifting) dropWhile_eq_Nil_conv hd_dropWhile list.collapse)
  have "s = a @ sep # b" using takeWhile_dropWhile_id [of "\<lambda>c. c \<noteq> sep" s] a d by simp
  moreover have "sep \<notin> set a" using a set_takeWhileD by fastforce
  ultimately show "s = a @ sep # b \<and> sep \<notin> set a" ..
next
  assume "s = a @ sep # b \<and> sep \<notin> set a"
  then show "SplitN2 s sep = [a, b]"
    by (auto simp: SplitN2_def)
qed

section \<open>Fields\<close>

text \<open>\<open>strings.Fields\<close>: the maximal runs of runes that are no white space, as their bytes.\<close>

fun fields_loop :: "(rune \<times> string) list \<Rightarrow> string \<Rightarrow> string list" where
  "fields_loop [] cur = (if cur = [] then [] else [cur])"
| "fields_loop ((r, t) # cs) cur =
     (if IsSpace r then (if cur = [] then fields_loop cs [] else cur # fields_loop cs [])
      else fields_loop cs (cur @ t))"

definition Fields :: "string \<Rightarrow> string list" where
  "Fields s = fields_loop (rune_chunks s) []"

section \<open>Decimal numbers\<close>

definition is_digit :: "char \<Rightarrow> bool" where
  "is_digit c \<longleftrightarrow> 48 \<le> (of_char c :: nat) \<and> (of_char c :: nat) \<le> 57"

definition decimal :: "string \<Rightarrow> nat" where
  "decimal ds = foldl (\<lambda>n c. 10 * n + (of_char c - 48)) 0 ds"

text \<open>
  \<open>strconv.Atoi\<close> with a 64-bit \<open>int\<close>: the value and whether the error is nil. Out of range the
  value is the nearest bound (the error is then not nil), and a syntax error gives 0.
\<close>

definition atoi_digits :: "bool \<Rightarrow> string \<Rightarrow> int \<times> bool" where
  "atoi_digits neg ds =
     (if ds = [] \<or> \<not> list_all is_digit ds then (0, False)
      else let n = int (decimal ds) in
        if neg then (if n \<le> 2 ^ 63 then (- n, True) else (- (2 ^ 63), False))
        else (if n < 2 ^ 63 then (n, True) else (2 ^ 63 - 1, False)))"

definition Atoi :: "string \<Rightarrow> int \<times> bool" where
  "Atoi s =
     (case s of
        [] \<Rightarrow> (0, False)
      | c # ds \<Rightarrow> if c = CHR ''-'' then atoi_digits True ds
                  else if c = CHR ''+'' then atoi_digits False ds else atoi_digits False s)"

lemma Atoi_bounds: "- (2 ^ 63) \<le> fst (Atoi s) \<and> fst (Atoi s) < 2 ^ 63"
  by (auto simp: Atoi_def atoi_digits_def Let_def split: list.split)

text \<open>\<open>strconv.Itoa\<close>, also what the verb \<open>%v\<close> prints for an \<open>int\<close>.\<close>

fun dec_digits :: "nat \<Rightarrow> string" where
  "dec_digits n = (if n < 10 then [char_of (48 + n)] else dec_digits (n div 10) @ [char_of (48 + n mod 10)])"

declare dec_digits.simps [simp del]

definition Itoa :: "int \<Rightarrow> string" where
  "Itoa i = (if i < 0 then CHR ''-'' # dec_digits (nat (- i)) else dec_digits (nat i))"

lemma dec_digits_props:
  "dec_digits n \<noteq> [] \<and> list_all is_digit (dec_digits n) \<and> decimal (dec_digits n) = n"
proof (induction n rule: dec_digits.induct)
  case (1 n)
  have d: "is_digit (char_of (48 + m)) \<and> (of_char (char_of (48 + m :: nat)) - 48 :: nat) = m" if "m < 10" for m
    using that by (simp add: is_digit_def of_char_of)
  show ?case
  proof (cases "n < 10")
    case True
    then show ?thesis using d [of n] by (subst (1 2 3) dec_digits.simps) (simp add: decimal_def)
  next
    case False
    then show ?thesis
      using 1 d [of "n mod 10"] by (subst (1 2 3) dec_digits.simps) (simp add: decimal_def)
  qed
qed

lemma Atoi_Itoa: "- (2 ^ 63) \<le> i \<Longrightarrow> i < 2 ^ 63 \<Longrightarrow> Atoi (Itoa i) = (i, True)"
proof (cases "i < 0")
  case True
  assume "- (2 ^ 63) \<le> i"
  with True show ?thesis
    using dec_digits_props [of "nat (- i)"] by (simp add: Itoa_def Atoi_def atoi_digits_def)
next
  case False
  assume i: "i < 2 ^ 63"
  obtain c cs where c: "dec_digits (nat i) = c # cs" using dec_digits_props [of "nat i"] by (cases "dec_digits (nat i)") auto
  have "is_digit c" using dec_digits_props [of "nat i"] c by simp
  then have "c \<noteq> CHR ''-''" "c \<noteq> CHR ''+''" by (auto simp: is_digit_def)
  with False i c show ?thesis
    using dec_digits_props [of "nat i"] by (simp add: Itoa_def Atoi_def atoi_digits_def)
qed

end
