(* ===== verification/IPAddress.thy ===== *)
theory IPAddress
  imports GoStrings "HOL-Library.Word"
begin

text \<open>
  IP addresses as package \<open>net\<close> represents, parses and prints them, as far as the program uses
  it: \<open>net.ParseIP\<close>, \<open>net.ParseCIDR\<close>, \<open>IP.String\<close> and \<open>IPNet.Contains\<close>. An address is its slice of
  bytes: empty for nil, 16 bytes for what the parsers return (an IPv4 address is mapped into
  IPv6), and 4 bytes for the result of \<open>To4\<close>.
\<close>

type_synonym IP = "8 word list"

section \<open>IPv4\<close>

text \<open>A decimal field: up to 255, without leading zeros.\<close>

definition ip4_field :: "string \<Rightarrow> 8 word option" where
  "ip4_field s =
     (if s = [] \<or> \<not> list_all is_digit s \<or> (length s > 1 \<and> hd s = CHR ''0'') \<or> decimal s > 255 then None
      else Some (of_nat (decimal s)))"

definition parseIPv4 :: "string \<Rightarrow> IP option" where
  "parseIPv4 s =
     (let fields = map ip4_field (Split s CHR ''.'') in
      if length fields = 4 \<and> None \<notin> set fields then Some (map the fields) else None)"

definition v4InV6Prefix :: "8 word list" where
  "v4InV6Prefix = replicate 10 0 @ [255, 255]"

definition To4 :: "IP \<Rightarrow> IP option" where
  "To4 ip =
     (if length ip = 4 then Some ip
      else if length ip = 16 \<and> take 12 ip = v4InV6Prefix then Some (drop 12 ip) else None)"

section \<open>IPv6\<close>

definition hex_value :: "char \<Rightarrow> nat option" where
  "hex_value c =
     (let n = of_char c :: nat in
      if 48 \<le> n \<and> n \<le> 57 then Some (n - 48)
      else if 97 \<le> n \<and> n \<le> 102 then Some (n - 87)
      else if 65 \<le> n \<and> n \<le> 70 then Some (n - 55)
      else None)"

definition hex_run :: "string \<Rightarrow> string" where
  "hex_run s = takeWhile (\<lambda>c. hex_value c \<noteq> None) s"

definition hex_number :: "string \<Rightarrow> nat" where
  "hex_number ds = foldl (\<lambda>n c. 16 * n + the (hex_value c)) 0 ds"

text \<open>
  The fields of an address without its zone. \<open>bytes\<close> are the bytes so far and \<open>ellipsis\<close> the place
  of the \<open>::\<close>; the result has both at the end. Each turn consumes a hexadecimal number, so the rest
  of the text gets shorter.
\<close>

function ip6_fields :: "string \<Rightarrow> 8 word list \<Rightarrow> nat option \<Rightarrow> (8 word list \<times> nat option) option" where
  "ip6_fields s bytes ellipsis =
     (let ds = hex_run s; rest = drop (length ds) s in
      if length bytes \<ge> 16 \<or> ds = [] \<or> length ds > 4 then None
      else if rest \<noteq> [] \<and> hd rest = CHR ''.'' then
        (if (ellipsis = None \<and> length bytes \<noteq> 12) \<or> length bytes + 4 > 16 then None
         else map_option (\<lambda>v4. (bytes @ v4, ellipsis)) (parseIPv4 s))
      else
        let bytes = bytes @ [of_nat (hex_number ds div 256), of_nat (hex_number ds mod 256)] in
        if rest = [] then Some (bytes, ellipsis)
        else if hd rest \<noteq> CHR '':'' \<or> length rest = 1 then None
        else if rest ! 1 = CHR '':'' then
          (if ellipsis \<noteq> None then None
           else if length rest = 2 then Some (bytes, Some (length bytes))
           else ip6_fields (drop 2 rest) bytes (Some (length bytes)))
        else ip6_fields (drop 1 rest) bytes ellipsis)"
  by pat_completeness auto
termination
  by (relation "measure (\<lambda>(s, _, _). length s)") auto

declare ip6_fields.simps [simp del]

definition ip6_expand :: "8 word list \<times> nat option \<Rightarrow> IP option" where
  "ip6_expand be =
     (case be of (bytes, ellipsis) \<Rightarrow>
      if length bytes < 16 then
        (case ellipsis of
           None \<Rightarrow> None
         | Some e \<Rightarrow> Some (take e bytes @ replicate (16 - length bytes) 0 @ drop e bytes))
      else if ellipsis \<noteq> None then None else Some bytes)"

text \<open>An address with a zone is an error for both \<open>ParseIP\<close> and \<open>ParseCIDR\<close>.\<close>

definition parseIPv6 :: "string \<Rightarrow> IP option" where
  "parseIPv6 s =
     (if CHR ''%'' \<in> set s then None
      else if s = ''::'' then Some (replicate 16 0)
      else if take 2 s = ''::'' then Option.bind (ip6_fields (drop 2 s) [] (Some 0)) ip6_expand
      else Option.bind (ip6_fields s [] None) ip6_expand)"

section \<open>ParseIP and ParseCIDR\<close>

text \<open>\<open>netip.ParseAddr\<close>: the first of \<open>.\<close>, \<open>:\<close> and \<open>%\<close> decides. The result has 4 or 16 bytes.\<close>

definition ParseAddr :: "string \<Rightarrow> IP option" where
  "ParseAddr s =
     (case dropWhile (\<lambda>c. c \<noteq> CHR ''.'' \<and> c \<noteq> CHR '':'' \<and> c \<noteq> CHR ''%'') s of
        [] \<Rightarrow> None
      | c # _ \<Rightarrow>
          if c = CHR ''.'' then parseIPv4 s else if c = CHR '':'' then parseIPv6 s else None)"

definition As16 :: "IP \<Rightarrow> IP" where
  "As16 ip = (if length ip = 4 then v4InV6Prefix @ ip else ip)"

definition ParseIP :: "string \<Rightarrow> IP" where
  "ParseIP s = (case ParseAddr s of None \<Rightarrow> [] | Some ip \<Rightarrow> As16 ip)"

record IPNet =
  net_IP :: IP
  net_Mask :: "8 word list"

text \<open>\<open>CIDRMask\<close>, byte by byte.\<close>

definition mask_byte :: "nat \<Rightarrow> 8 word" where
  "mask_byte n = of_nat (256 - 2 ^ (8 - min n 8))"

definition CIDRMask :: "nat \<Rightarrow> nat \<Rightarrow> 8 word list" where
  "CIDRMask ones bits = map (\<lambda>i. mask_byte (ones - 8 * i)) [0..<bits div 8]"

text \<open>\<open>IP.Mask\<close> for the two combinations of lengths \<open>ParseCIDR\<close> makes.\<close>

definition ip_Mask :: "IP \<Rightarrow> 8 word list \<Rightarrow> IP" where
  "ip_Mask ip m =
     (if length m = 4 \<and> length ip = 16 \<and> take 12 ip = v4InV6Prefix
      then map2 and (drop 12 ip) m else map2 and ip m)"

definition ParseCIDR :: "string \<Rightarrow> (IP \<times> IPNet) option" where
  "ParseCIDR s =
     (case SplitN2 s CHR ''/'' of
        [a, ones] \<Rightarrow>
          (case ParseAddr a of
             None \<Rightarrow> None
           | Some ip \<Rightarrow>
               if ones = [] \<or> \<not> list_all is_digit ones \<or> decimal ones > 8 * length ip then None
               else let m = CIDRMask (decimal ones) (8 * length ip) in
                 Some (As16 ip, \<lparr>net_IP = ip_Mask (As16 ip) m, net_Mask = m\<rparr>))
      | _ \<Rightarrow> None)"

definition Contains :: "IPNet \<Rightarrow> IP \<Rightarrow> bool" where
  "Contains n ip =
     (let nn = (case To4 (net_IP n) of None \<Rightarrow> net_IP n | Some x \<Rightarrow> x);
          m = (if length (net_Mask n) = 16 \<and> length nn = 4 then drop 12 (net_Mask n) else net_Mask n);
          ip = (case To4 ip of None \<Rightarrow> ip | Some x \<Rightarrow> x)
      in length ip = length nn \<and> length m = length nn \<and> nn \<noteq> [] \<and> map2 and nn m = map2 and ip m)"

section \<open>Printing\<close>

definition hex_digit :: "nat \<Rightarrow> char" where
  "hex_digit n = (if n < 10 then char_of (48 + n) else char_of (87 + n))"

fun hex_digits :: "nat \<Rightarrow> string" where
  "hex_digits n = (if n < 16 then [hex_digit n] else hex_digits (n div 16) @ [hex_digit (n mod 16)])"

declare hex_digits.simps [simp del]

fun ip6_groups :: "8 word list \<Rightarrow> nat list" where
  "ip6_groups (a # b # bs) = (256 * unat a + unat b) # ip6_groups bs"
| "ip6_groups _ = []"

definition zero_run :: "nat list \<Rightarrow> nat \<Rightarrow> nat" where
  "zero_run gs i = length (takeWhile (\<lambda>g. g = 0) (drop i gs))"

text \<open>The longest run of at least two zero groups, the first of them if there are several.\<close>

definition longest_zeros :: "nat list \<Rightarrow> (nat \<times> nat) option" where
  "longest_zeros gs =
     foldl (\<lambda>best i.
        let l = zero_run gs i in
        if 2 \<le> l \<and> (case best of None \<Rightarrow> True | Some (_, bl) \<Rightarrow> bl < l) then Some (i, l) else best)
       None [0..<length gs]"

definition ip6_String :: "IP \<Rightarrow> string" where
  "ip6_String ip =
     (let gs = ip6_groups ip; sep = '':'' in
      case longest_zeros gs of
        None \<Rightarrow> Join (map hex_digits gs) sep
      | Some (i, l) \<Rightarrow>
          Join (map hex_digits (take i gs)) sep @ ''::'' @ Join (map hex_digits (drop (i + l) gs)) sep)"

definition ip4_String :: "IP \<Rightarrow> string" where
  "ip4_String ip = Join (map (\<lambda>b. dec_digits (unat b)) ip) ''.''"

text \<open>\<open>IP.String\<close> for the lengths that occur; a nil address prints as \<open><nil>\<close>.\<close>

definition IP_String :: "IP \<Rightarrow> string" where
  "IP_String ip =
     (if ip = [] then ''<nil>''
      else case To4 ip of Some p \<Rightarrow> ip4_String p | None \<Rightarrow> ip6_String ip)"

section \<open>Dotted addresses are read back\<close>

lemma dec_digits_head: "0 < n \<Longrightarrow> hd (dec_digits n) \<noteq> CHR ''0''"
proof (induction n rule: dec_digits.induct)
  case (1 n)
  show ?case
  proof (cases "n < 10")
    case True
    have "char_of (48 + n) \<noteq> (CHR ''0'')"
    proof
      assume "char_of (48 + n) = (CHR ''0'')"
      then have "of_char (char_of (48 + n) :: char) = (48 :: nat)" by simp
      then show False using True 1(2) by (simp add: of_char_of)
    qed
    with True show ?thesis by (subst dec_digits.simps) simp
  next
    case False
    moreover from False have "hd (dec_digits (n div 10)) \<noteq> CHR ''0''" using 1 by simp
    ultimately show ?thesis
      using dec_digits_props [of "n div 10"] by (subst dec_digits.simps) simp
  qed
qed

lemma digit_no_sep:
  assumes "list_all is_digit ds"
  shows "CHR ''.'' \<notin> set ds" "CHR ''/'' \<notin> set ds" "CHR '':'' \<notin> set ds" "CHR ''%'' \<notin> set ds"
  using assms by (auto simp: list_all_iff is_digit_def)

lemma ip4_field_dec_digits: "ip4_field (dec_digits (unat b)) = Some b"
proof -
  have "unat b < 256" using unsigned_less [of b, where ?'a = nat] by simp
  moreover have "\<not> (length (dec_digits (unat b)) > 1 \<and> hd (dec_digits (unat b)) = CHR ''0'')"
  proof (cases "unat b = 0")
    case True
    then show ?thesis by (simp add: dec_digits.simps)
  next
    case False
    then show ?thesis using dec_digits_head [of "unat b"] by simp
  qed
  ultimately show ?thesis
    using dec_digits_props [of "unat b"] by (auto simp: ip4_field_def)
qed

lemma Split_no_sep: "sep \<notin> set a \<Longrightarrow> Split a sep = [a]"
  by (induction a) auto

lemma Split_first: "sep \<notin> set a \<Longrightarrow> Split (a @ sep # s) sep = a # Split s sep"
  by (induction a) auto

lemma parseIPv4_String: "length ip = 4 \<Longrightarrow> parseIPv4 (ip4_String ip) = Some ip"
proof -
  assume "length ip = 4"
  then obtain a b c d where ip: "ip = [a, b, c, d]"
    by (auto simp: length_Suc_conv eval_nat_numeral)
  have no: "CHR ''.'' \<notin> set (dec_digits n)" for n
    using digit_no_sep(1) dec_digits_props [of n] by blast
  have "Split (ip4_String ip) CHR ''.'' = map (\<lambda>b. dec_digits (unat b)) ip"
    by (simp add: ip ip4_String_def Split_first Split_no_sep no)
  then show ?thesis by (simp add: parseIPv4_def ip ip4_field_dec_digits)
qed

lemma ParseAddr_dotted:
  assumes "length ip = 4"
  shows "ParseAddr (ip4_String ip) = Some ip"
proof -
  obtain a b c d where ip: "ip = [a, b, c, d]"
    using assms by (auto simp: length_Suc_conv eval_nat_numeral)
  have no: "\<forall>x \<in> set (dec_digits n). x \<noteq> CHR ''.'' \<and> x \<noteq> CHR '':'' \<and> x \<noteq> CHR ''%''" for n
    using digit_no_sep [of "dec_digits n"] dec_digits_props [of n] by metis
  have "dropWhile (\<lambda>c. c \<noteq> CHR ''.'' \<and> c \<noteq> CHR '':'' \<and> c \<noteq> CHR ''%'') (ip4_String ip) =
      CHR ''.'' # ip4_String [b, c, d]"
    using no [of "unat a"] by (simp add: ip ip4_String_def dropWhile_append2)
  then show ?thesis using parseIPv4_String [OF assms] by (simp add: ParseAddr_def)
qed

lemma To4_As16: "length ip = 4 \<Longrightarrow> To4 (As16 ip) = Some ip"
  by (simp add: To4_def As16_def v4InV6Prefix_def)

lemma ParseIP_dotted: "length ip = 4 \<Longrightarrow> ParseIP (ip4_String ip) = As16 ip"
  by (simp add: ParseIP_def ParseAddr_dotted)

lemma IP_String_As16: "length ip = 4 \<Longrightarrow> IP_String (As16 ip) = ip4_String ip"
  using To4_As16 by (auto simp: IP_String_def As16_def)

text \<open>What \<open>ParseCIDR\<close> gives for an address with a mask, as Docker reports it.\<close>

lemma ParseCIDR_dotted:
  assumes "length ip = 4" "n \<le> 32"
  shows "\<exists>net. ParseCIDR (ip4_String ip @ CHR ''/'' # dec_digits n) = Some (As16 ip, net)"
proof -
  obtain a b c d where ip: "ip = [a, b, c, d]"
    using assms(1) by (auto simp: length_Suc_conv eval_nat_numeral)
  have no: "CHR ''/'' \<notin> set (dec_digits k)" for k
    using digit_no_sep(2) dec_digits_props [of k] by blast
  have "CHR ''/'' \<notin> set (ip4_String ip)" by (simp add: ip ip4_String_def no)
  then have "SplitN2 (ip4_String ip @ CHR ''/'' # dec_digits n) CHR ''/'' = [ip4_String ip, dec_digits n]"
    by (simp add: SplitN2_eq)
  then show ?thesis
    using assms dec_digits_props [of n] by (simp add: ParseCIDR_def ParseAddr_dotted Let_def)
qed

end
