(* ===== verification/Block.thy ===== *)
theory Block
  imports GoStrings
begin

text \<open>
  The data model of package \<open>caddyfile\<close> (\<open>caddyfile/caddyfile.go\<close>): blocks, containers and
  their elementary operations, and the positions by which the model names a block inside the
  tree where the code holds a pointer to it.
\<close>

section \<open>Blocks and containers\<close>

text \<open>
  \<open>Block\<close> embeds a pointer to its \<open>Container\<close>; a container is the slice of its children. Each
  block owns its container, so the tree is a value.
\<close>

datatype block = Block (Order: int) (Keys: "string list") (Children: "block list")

type_synonym container = "block list"

definition MaxInt32 :: int where
  "MaxInt32 = 2147483647"

definition CreateContainer :: container where
  "CreateContainer = []"

definition CreateBlock :: block where
  "CreateBlock = Block MaxInt32 [] CreateContainer"

fun AddKeys :: "string list \<Rightarrow> block \<Rightarrow> block" where
  "AddKeys ks (Block o' keys cs) = Block o' (keys @ ks) cs"

definition AddBlock :: "block \<Rightarrow> container \<Rightarrow> container" where
  "AddBlock b cs = cs @ [b]"

definition GetFirstKey :: "block \<Rightarrow> string" where
  "GetFirstKey b = (if length (Keys b) = 0 then [] else Keys b ! 0)"

definition GetAllByFirstKey :: "string \<Rightarrow> container \<Rightarrow> block list" where
  "GetAllByFirstKey firstKey cs = filter (\<lambda>b. GetFirstKey b = firstKey) cs"

definition IsGlobalBlock :: "block \<Rightarrow> bool" where
  "IsGlobalBlock b \<longleftrightarrow> length (Keys b) = 0"

definition IsSnippet :: "block \<Rightarrow> bool" where
  "IsSnippet b \<longleftrightarrow> length (Keys b) = 1 \<and> HasPrefix (Keys b ! 0) ''('' \<and> HasSuffix (Keys b ! 0) '')''"

definition IsMatcher :: "block \<Rightarrow> bool" where
  "IsMatcher b \<longleftrightarrow> length (Keys b) > 0 \<and> HasPrefix (Keys b ! 0) ''@''"

lemma Keys_AddKeys [simp]: "Keys (AddKeys ks b) = Keys b @ ks"
  and Order_AddKeys [simp]: "Order (AddKeys ks b) = Order b"
  and Children_AddKeys [simp]: "Children (AddKeys ks b) = Children b"
  by (cases b; simp)+

lemma size_Children [termination_simp]: "size_list size (Children b) < size b"
  by (cases b) simp

lemma size_in_Children [termination_simp]: "c \<in> set (Children b) \<Longrightarrow> size c < size b"
  by (cases b) (auto dest: size_list_estimation' [where f = size, OF _ order_refl])

end
