(* ===== verification/Ordering.thy ===== *)
theory Ordering
  imports Block
begin

text \<open>
  The order in which a container is written (\<open>compareBlocks\<close>, \<open>(*Container).sort\<close> and \<open>min\<close> of
  \<open>caddyfile/marshal.go\<close>). The comparison is shown to be a linear order on whole blocks, which
  makes \<open>block\<close> an instance of \<open>linorder\<close>, and sorting is shown to compute a canonical form of a
  tree up to the order of siblings at every level.
\<close>

section \<open>The comparison\<close>

fun compare_common_keys :: "string list \<Rightarrow> string list \<Rightarrow> int" where
  "compare_common_keys (a # as) (b # bs) =
     (if a \<noteq> b then (if a < b then -1 else 1) else compare_common_keys as bs)"
| "compare_common_keys _ _ = 0"

function compare_blocks :: "block \<Rightarrow> block \<Rightarrow> int"
  and compare_common_children :: "container \<Rightarrow> container \<Rightarrow> int" where
  "compare_blocks blockA blockB =
     (if IsGlobalBlock blockA \<noteq> IsGlobalBlock blockB then (if IsGlobalBlock blockA then -1 else 1)
      else if IsSnippet blockA \<noteq> IsSnippet blockB then (if IsSnippet blockA then -1 else 1)
      else if IsMatcher blockA \<noteq> IsMatcher blockB then (if IsMatcher blockA then -1 else 1)
      else if Order blockA \<noteq> Order blockB then (if Order blockA < Order blockB then -1 else 1)
      else
        let keyComparison = compare_common_keys (Keys blockA) (Keys blockB) in
        if keyComparison \<noteq> 0 then keyComparison
        else if length (Keys blockA) \<noteq> length (Keys blockB) then
          (if length (Keys blockA) < length (Keys blockB) then -1 else 1)
        else
          let childComparison = compare_common_children (Children blockA) (Children blockB) in
          if childComparison \<noteq> 0 then childComparison
          else if length (Children blockA) \<noteq> length (Children blockB) then
            (if length (Children blockA) < length (Children blockB) then -1 else 1)
          else 0)"
| "compare_common_children (a # as) (b # bs) =
     (let childComparison = compare_blocks a b in
      if childComparison \<noteq> 0 then childComparison else compare_common_children as bs)"
| "compare_common_children [] bs = 0"
| "compare_common_children (a # as) [] = 0"
  by pat_completeness auto
termination
  by (relation "measure (\<lambda>x. case x of Inl (a, b) \<Rightarrow> size a | Inr (as, bs) \<Rightarrow> size_list size as)")
    (auto simp: size_Children)

declare compare_blocks.simps [simp del]

section \<open>It is a linear order\<close>

text \<open>
  A comparison chain is a lexicographic combination of comparisons: \<open>first_of\<close> takes the first
  one that decides. \<open>cmp_triple\<close> says that three results are those of a total preorder on three
  elements; both lists and chains preserve it.
\<close>

definition first_of :: "int \<Rightarrow> int \<Rightarrow> int" where
  "first_of r s = (if r \<noteq> 0 then r else s)"

definition cmp_of :: "('a::linorder) \<Rightarrow> 'a \<Rightarrow> int" where
  "cmp_of a b = (if a = b then 0 else if a < b then -1 else 1)"

definition sign_values :: "int set" where
  "sign_values = {-1, 0, 1}"

definition cmp_triple :: "int \<Rightarrow> int \<Rightarrow> int \<Rightarrow> bool" where
  "cmp_triple ab bc ac \<longleftrightarrow>
     ab \<in> sign_values \<and> bc \<in> sign_values \<and> ac \<in> sign_values \<and>
     (if ab = 0 then ac = bc else if bc = 0 then ac = ab else if ab = bc then ac = ab else True)"

fun list_cmp :: "('a \<Rightarrow> 'b \<Rightarrow> int) \<Rightarrow> 'a list \<Rightarrow> 'b list \<Rightarrow> int" where
  "list_cmp f (a # as) (b # bs) = first_of (f a b) (list_cmp f as bs)"
| "list_cmp f [] (b # bs) = -1"
| "list_cmp f (a # as) [] = 1"
| "list_cmp f [] [] = 0"

lemma cmp_triple_first_of:
  "cmp_triple a b c \<Longrightarrow> cmp_triple a' b' c' \<Longrightarrow>
   cmp_triple (first_of a a') (first_of b b') (first_of c c')"
  by (cases "a = 0"; cases "b = 0") (auto simp: cmp_triple_def first_of_def split: if_splits)

lemma cmp_triple_cmp_of: "cmp_triple (cmp_of a b) (cmp_of b c) (cmp_of a c)"
  by (auto simp: cmp_triple_def cmp_of_def sign_values_def)

lemma first_of_range: "x \<in> sign_values \<Longrightarrow> y \<in> sign_values \<Longrightarrow> first_of x y \<in> sign_values"
  by (simp add: first_of_def)

lemma cmp_of_range: "cmp_of a b \<in> sign_values"
  by (simp add: cmp_of_def sign_values_def)

lemma list_cmp_range:
  "(\<And>a b. a \<in> set as \<Longrightarrow> f a b \<in> sign_values) \<Longrightarrow> list_cmp f as bs \<in> sign_values"
proof (induction f as bs rule: list_cmp.induct)
  case (1 f a as b bs)
  then show ?case by (simp add: first_of_range)
qed (simp_all add: sign_values_def)

lemma cmp_triple_list_cmp:
  assumes "\<And>a b c. a \<in> set as \<Longrightarrow> cmp_triple (f a b) (f b c) (f a c)"
    and range: "\<And>a b. f a b \<in> sign_values"
  shows "cmp_triple (list_cmp f as bs) (list_cmp f bs cs) (list_cmp f as cs)"
  using assms(1)
proof (induction as arbitrary: bs cs)
  case Nil
  have "list_cmp f bs cs \<in> sign_values" by (rule list_cmp_range) (rule range)
  then show ?case by (cases bs; cases cs) (simp_all add: cmp_triple_def sign_values_def)
next
  case (Cons a as)
  have ac: "list_cmp f (a # as) xs \<in> sign_values" for xs by (rule list_cmp_range) (rule range)
  show ?case
  proof (cases bs)
    case Nil
    then show ?thesis using ac [of cs] by (cases cs) (simp_all add: cmp_triple_def sign_values_def)
  next
    case bs: (Cons b bs')
    show ?thesis
    proof (cases cs)
      case Nil
      then show ?thesis using ac [of bs] bs by (simp add: cmp_triple_def sign_values_def)
    next
      case (Cons c cs')
      have "cmp_triple (list_cmp f as bs') (list_cmp f bs' cs') (list_cmp f as cs')"
        by (rule Cons.IH) (simp add: Cons.prems)
      moreover have "cmp_triple (f a b) (f b c) (f a c)" by (rule Cons.prems) simp
      ultimately show ?thesis using bs Cons by (simp add: cmp_triple_first_of)
    qed
  qed
qed

lemma list_cmp_flip:
  "(\<And>a b. a \<in> set as \<Longrightarrow> f b a = - f a b) \<Longrightarrow> list_cmp f bs as = - list_cmp f as bs"
  by (induction f as bs rule: list_cmp.induct) (auto simp: first_of_def)

lemma list_cmp_0:
  "(\<And>a b. a \<in> set as \<Longrightarrow> f a b = 0 \<longleftrightarrow> a = b) \<Longrightarrow> list_cmp f as bs = 0 \<longleftrightarrow> as = bs"
  by (induction f as bs rule: list_cmp.induct) (auto simp: first_of_def)

lemma compare_keys_eq:
  "first_of (compare_common_keys as bs) (cmp_of (length as) (length bs)) = list_cmp cmp_of as bs"
  by (induction "cmp_of :: string \<Rightarrow> string \<Rightarrow> int" as bs rule: list_cmp.induct)
    (auto simp: first_of_def cmp_of_def)

lemma compare_children_eq:
  "first_of (compare_common_children as bs) (cmp_of (length as) (length bs)) =
   list_cmp compare_blocks as bs"
proof (induction compare_blocks as bs rule: list_cmp.induct)
  case (1 a as b bs)
  have "first_of (compare_common_children (a # as) (b # bs)) (cmp_of (length (a # as)) (length (b # bs)))
    = first_of (compare_blocks a b)
        (first_of (compare_common_children as bs) (cmp_of (length as) (length bs)))"
    by (simp add: first_of_def cmp_of_def Let_def)
  with 1 show ?case by simp
qed (simp_all add: first_of_def cmp_of_def)

lemma decide_flag: "(if p \<noteq> q then (if p then -1 else 1) else r) = first_of (cmp_of (\<not> p) (\<not> q)) r"
  by (cases p; cases q) (simp_all add: first_of_def cmp_of_def)

lemma decide_order: "(if x \<noteq> y then (if x < y then -1 else 1) else r) = first_of (cmp_of x y) r"
  by (simp add: first_of_def cmp_of_def)

lemma decide_result: "(let k = x in if k \<noteq> 0 then k else r) = first_of x r"
  by (simp add: first_of_def Let_def)

lemma first_of_assoc: "first_of (first_of x y) z = first_of x (first_of y z)"
  and first_of_0: "first_of x 0 = x"
  by (simp_all add: first_of_def)

lemma compare_blocks_chain:
  "compare_blocks a b =
     first_of (cmp_of (\<not> IsGlobalBlock a) (\<not> IsGlobalBlock b))
    (first_of (cmp_of (\<not> IsSnippet a) (\<not> IsSnippet b))
    (first_of (cmp_of (\<not> IsMatcher a) (\<not> IsMatcher b))
    (first_of (cmp_of (Order a) (Order b))
    (first_of (list_cmp cmp_of (Keys a) (Keys b))
              (list_cmp compare_blocks (Children a) (Children b))))))"
  unfolding compare_blocks.simps [of a b] compare_keys_eq [symmetric] compare_children_eq [symmetric]
  by (simp only: decide_result decide_order decide_flag first_of_assoc first_of_0)

lemma compare_blocks_range: "compare_blocks a b \<in> sign_values"
proof (induction a arbitrary: b)
  case (Block o' ks cs)
  have "list_cmp compare_blocks cs (Children b) \<in> sign_values"
    by (rule list_cmp_range) (rule Block)
  moreover have "list_cmp cmp_of ks (Keys b) \<in> sign_values"
    by (rule list_cmp_range) (rule cmp_of_range)
  ultimately show ?case
    by (subst compare_blocks_chain) (simp add: first_of_range cmp_of_range)
qed

lemma compare_blocks_triple:
  "cmp_triple (compare_blocks a b) (compare_blocks b c) (compare_blocks a c)"
proof (induction a arbitrary: b c)
  case (Block o' ks cs)
  let ?a = "Block o' ks cs"
  have "cmp_triple (list_cmp compare_blocks (Children ?a) (Children b))
     (list_cmp compare_blocks (Children b) (Children c)) (list_cmp compare_blocks (Children ?a) (Children c))"
    by (rule cmp_triple_list_cmp) (simp_all add: Block compare_blocks_range)
  moreover have "cmp_triple (list_cmp cmp_of (Keys ?a) (Keys b))
     (list_cmp cmp_of (Keys b) (Keys c)) (list_cmp cmp_of (Keys ?a) (Keys c))"
    by (rule cmp_triple_list_cmp) (rule cmp_triple_cmp_of cmp_of_range)+
  ultimately show ?case
    by (subst (1 2 3) compare_blocks_chain) (intro cmp_triple_first_of cmp_triple_cmp_of)
qed

lemma compare_blocks_0: "compare_blocks a b = 0 \<longleftrightarrow> a = b"
proof (induction a arbitrary: b)
  case (Block o' ks cs)
  have "list_cmp compare_blocks cs (Children b) = 0 \<longleftrightarrow> cs = Children b"
    by (rule list_cmp_0) (rule Block)
  moreover have "list_cmp cmp_of ks (Keys b) = 0 \<longleftrightarrow> ks = Keys b"
    by (rule list_cmp_0) (simp add: cmp_of_def)
  ultimately show ?case
    by (subst compare_blocks_chain, cases b) (auto simp: first_of_def cmp_of_def split: if_splits)
qed

lemma cmp_of_flip: "cmp_of b a = - cmp_of a b"
  by (auto simp: cmp_of_def)

lemma first_of_minus: "first_of (- r) (- s) = - first_of r s"
  by (simp add: first_of_def)

lemma compare_blocks_flip: "compare_blocks b a = - compare_blocks a b"
proof (induction a arbitrary: b)
  case (Block o' ks cs)
  let ?a = "Block o' ks cs"
  have "list_cmp compare_blocks (Children b) (Children ?a) = - list_cmp compare_blocks (Children ?a) (Children b)"
    by (rule list_cmp_flip) (simp add: Block)
  moreover have "list_cmp cmp_of (Keys b) (Keys ?a) = - list_cmp cmp_of (Keys ?a) (Keys b)"
    by (rule list_cmp_flip) (rule cmp_of_flip)
  ultimately show ?case
    by (subst (1 2) compare_blocks_chain) (simp only: first_of_minus cmp_of_flip [of "Order b"]
        cmp_of_flip [of "\<not> IsGlobalBlock b"] cmp_of_flip [of "\<not> IsSnippet b"]
        cmp_of_flip [of "\<not> IsMatcher b"])
qed

instantiation block :: linorder
begin

definition less_eq_block :: "block \<Rightarrow> block \<Rightarrow> bool" where
  "less_eq_block a b \<longleftrightarrow> compare_blocks a b \<le> 0"

definition less_block :: "block \<Rightarrow> block \<Rightarrow> bool" where
  "less_block a b \<longleftrightarrow> compare_blocks a b = -1"

instance
proof
  fix a b c :: block
  show "(a < b) = (a \<le> b \<and> \<not> b \<le> a)"
    using compare_blocks_range [of a b] compare_blocks_flip [of a b]
    by (auto simp: less_eq_block_def less_block_def sign_values_def)
  show "a \<le> a" using compare_blocks_0 [of a a] by (simp add: less_eq_block_def)
  show "a \<le> b \<Longrightarrow> b \<le> c \<Longrightarrow> a \<le> c"
    using compare_blocks_triple [of a b c]
    by (auto simp: less_eq_block_def cmp_triple_def sign_values_def split: if_splits)
  show "a \<le> b \<Longrightarrow> b \<le> a \<Longrightarrow> a = b"
    using compare_blocks_flip [of a b] by (simp add: less_eq_block_def flip: compare_blocks_0)
  show "a \<le> b \<or> b \<le> a"
    using compare_blocks_flip [of a b] by (auto simp: less_eq_block_def)
qed

end

section \<open>Sorting a container\<close>

lemma size_Children_in_list [termination_simp]:
  "b \<in> set cs \<Longrightarrow> size_list size (Children b) < size_list size cs"
  by (meson order_less_le_trans size_Children size_list_estimation' order_refl)

fun sort_container :: "container \<Rightarrow> container" where
  "sort_container cs =
     slice_stable (\<lambda>a b. compare_blocks a b = -1)
       (map (\<lambda>b. Block (Order b) (Keys b) (sort_container (Children b))) cs)"

declare sort_container.simps [simp del]

abbreviation sort_block :: "block \<Rightarrow> block" where
  "sort_block b \<equiv> Block (Order b) (Keys b) (sort_container (Children b))"

text \<open>
  The code's comparator meets the contract of the stable sort, and sorting agrees with the
  library's \<open>sort\<close> for the instance above.
\<close>

lemma compare_blocks_less: "(\<lambda>a b. compare_blocks a b = -1) = (<)"
  by (simp add: less_block_def fun_eq_iff)

interpretation block_order: less_fun "\<lambda>a b. compare_blocks a b = -1"
  unfolding compare_blocks_less by (rule linear_less.less_fun_axioms)

lemma sort_container_eq: "sort_container cs = sort (map sort_block cs)"
  by (subst sort_container.simps) (simp add: compare_blocks_less slice_stable_linorder)

lemma sort_container_Nil [simp]: "sort_container [] = []"
  by (subst sort_container_eq) simp

lemma mset_sort_container: "mset (sort_container cs) = image_mset sort_block (mset cs)"
  by (subst sort_container_eq) simp

lemma length_sort_container [simp]: "length (sort_container cs) = length cs"
  by (subst sort_container_eq) simp

lemma set_sort_container: "set (sort_container cs) = sort_block ` set cs"
  by (subst sort_container_eq) simp

subsection \<open>Sorted at every level\<close>

fun sorted_container :: "container \<Rightarrow> bool" where
  "sorted_container cs \<longleftrightarrow> sorted cs \<and> (\<forall>b \<in> set cs. sorted_container (Children b))"

declare sorted_container.simps [simp del]

lemma sorted_container_Nil [simp]: "sorted_container []"
  by (subst sorted_container.simps) simp

lemma sorted_sort_container: "sorted_container (sort_container cs)"
proof (induction cs rule: sort_container.induct)
  case (1 cs)
  show ?case
    by (subst sorted_container.simps) (use 1 in \<open>auto simp: set_sort_container sort_container_eq [of cs]\<close>)
qed

lemma sort_sorted_container: "sorted_container cs \<Longrightarrow> sort_container cs = cs"
proof (induction cs rule: sort_container.induct)
  case (1 cs)
  have cs: "sorted cs" "\<And>b. b \<in> set cs \<Longrightarrow> sorted_container (Children b)"
    using 1(2) unfolding sorted_container.simps [of cs] by auto
  have "map sort_block cs = cs"
    by (rule map_idI) (use 1(1) cs(2) in \<open>auto intro: block.expand\<close>)
  with cs(1) show ?case by (subst sort_container_eq) (simp only: sorted_sort_id)
qed

lemma sort_container_idem [simp]: "sort_container (sort_container cs) = sort_container cs"
  by (rule sort_sorted_container [OF sorted_sort_container])

subsection \<open>Trees up to the order of siblings\<close>

inductive block_perm :: "block \<Rightarrow> block \<Rightarrow> bool" where
  "list_all2 block_perm cs ds' \<Longrightarrow> mset ds' = mset ds \<Longrightarrow> block_perm (Block o' ks cs) (Block o' ks ds)"
monos list_all2_mono

inductive_simps block_perm_simps: "block_perm (Block o' ks cs) b"

definition container_perm :: "container \<Rightarrow> container \<Rightarrow> bool" where
  "container_perm cs ds \<longleftrightarrow> (\<exists>ds'. list_all2 block_perm cs ds' \<and> mset ds' = mset ds)"

lemma block_perm_iff:
  "block_perm b c \<longleftrightarrow> Order b = Order c \<and> Keys b = Keys c \<and> container_perm (Children b) (Children c)"
  by (cases b; cases c) (auto simp: block_perm_simps container_perm_def)

lemma mset_map_eq_ex:
  "mset (map f xs) = mset (map f ys) \<Longrightarrow> \<exists>ys'. mset ys' = mset ys \<and> map f ys' = map f xs"
proof (induction xs arbitrary: ys)
  case (Cons x xs)
  then have "f x \<in> f ` set ys"
    by (metis (no_types) list.set_intros(1) list.simps(9) list.set_map set_mset_mset)
  then obtain y where y: "y \<in> set ys" "f y = f x" by auto
  have "mset (map f ys) = add_mset (f y) (mset (map f (remove1 y ys)))"
    using y(1) by (simp add: image_mset_add_mset [symmetric] del: image_mset_add_mset)
  then have "mset (map f xs) = mset (map f (remove1 y ys))"
    using Cons.prems y(2) by simp
  then obtain zs where "mset zs = mset (remove1 y ys)" "map f zs = map f xs"
    using Cons.IH by blast
  then have "mset (y # zs) = mset ys \<and> map f (y # zs) = map f (x # xs)"
    using y by simp
  then show ?case by blast
qed simp

lemma block_perm_sort: "block_perm b c \<Longrightarrow> sort_block b = sort_block c"
proof (induction rule: block_perm.induct)
  case (1 cs ds' ds o' ks)
  have "map sort_block cs = map sort_block ds'"
    using 1(1) by (induction rule: list_all2_induct) auto
  then have "mset (map sort_block cs) = mset (map sort_block ds)"
    unfolding mset_map 1(2) [symmetric] by (simp only: mset_map [symmetric])
  then have "sort (map sort_block cs) = sort (map sort_block ds)"
    by (simp only: sorted_list_of_multiset_mset [symmetric])
  then show ?case by (simp only: block.sel sort_container_eq [symmetric])
qed

lemma sort_block_perm: "sort_block b = sort_block c \<Longrightarrow> block_perm b c"
proof (induction b arbitrary: c)
  case (Block o' ks cs)
  have "mset (map sort_block cs) = mset (map sort_block (Children c))"
  proof -
    have "mset (sort_container cs) = mset (sort_container (Children c))" using Block.prems by simp
    then show ?thesis unfolding mset_sort_container mset_map .
  qed
  then obtain ds where ds: "mset ds = mset (Children c)" "map sort_block ds = map sort_block cs"
    using mset_map_eq_ex by blast
  have "list_all2 block_perm cs ds"
  proof (rule list_all2_all_nthI)
    show len: "length cs = length ds" using ds(2) by (metis length_map)
    fix n assume "n < length cs"
    with len have "sort_block (ds ! n) = map sort_block ds ! n" "sort_block (cs ! n) = map sort_block cs ! n"
      by (simp_all only: nth_map)
    then have "sort_block (cs ! n) = sort_block (ds ! n)" by (simp only: ds(2))
    with \<open>n < length cs\<close> show "block_perm (cs ! n) (ds ! n)" by (intro Block.IH) auto
  qed
  with ds Block.prems show ?case by (cases c) (auto intro: block_perm.intros)
qed

lemma container_perm_iff: "container_perm cs ds \<longleftrightarrow> sort_container cs = sort_container ds"
proof -
  have "container_perm cs ds \<longleftrightarrow> block_perm (Block 0 [] cs) (Block 0 [] ds)"
    by (simp add: block_perm_iff)
  also have "\<dots> \<longleftrightarrow> sort_container cs = sort_container ds"
    using block_perm_sort [of "Block 0 [] cs" "Block 0 [] ds"]
      sort_block_perm [of "Block 0 [] cs" "Block 0 [] ds"] by auto
  finally show ?thesis .
qed

lemma container_perm_mset:
  assumes "mset cs = mset ds"
  shows "container_perm cs ds"
proof -
  have "sort (map sort_block cs) = sort (map sort_block ds)"
    by (rule properties_for_sort) (simp_all add: assms)
  then show ?thesis unfolding container_perm_iff sort_container_eq [of cs] sort_container_eq [of ds] .
qed

subsection \<open>What comes first\<close>

definition rank :: "block \<Rightarrow> nat" where
  "rank b = (if IsGlobalBlock b then 0 else if IsSnippet b then 1 else if IsMatcher b then 2 else 3)"

lemma snippet_not_matcher: "IsSnippet b \<Longrightarrow> \<not> IsMatcher b"
  by (auto simp: IsSnippet_def IsMatcher_def HasPrefix_def take_Suc split: if_splits)

lemma rank_mono: "a \<le> b \<Longrightarrow> rank a \<le> rank b"
  using snippet_not_matcher [of a] snippet_not_matcher [of b]
  unfolding less_eq_block_def
  by (subst (asm) compare_blocks_chain)
    (auto simp: rank_def first_of_def cmp_of_def IsGlobalBlock_def IsSnippet_def IsMatcher_def split: if_splits)

lemma rank_sort_container: "sorted (map rank (sort_container cs))"
proof -
  have "sorted (sort_container cs)" by (subst sort_container_eq) (rule sorted_sort)
  then show ?thesis
    unfolding sorted_map by (rule sorted_wrt_mono_rel [rotated]) (rule rank_mono)
qed

end
