(* ===== verification/Marshal.thy ===== *)
theory Marshal
  imports Ordering
begin

text \<open>
  Writing a container as Caddyfile text (\<open>caddyfile/marshal.go\<close>): keys are separated by blanks and
  quoted where needed, children are indented by tabs between braces.
\<close>

section \<open>The writer\<close>

definition write_key :: "string \<Rightarrow> string" where
  "write_key key =
     (if ContainsAny key [CHR 0x0A, CHR 0x22] then ''`'' @ ReplaceAll key ''`'' [CHR 0x5C, CHR ''`''] @ ''`''
      else if ContainsAny key '' '' then [CHR 0x22] @ ReplaceAll key [CHR 0x22] [CHR 0x5C, CHR 0x22] @ [CHR 0x22]
      else key)"

fun write_keys :: "string list \<Rightarrow> bool \<Rightarrow> string" where
  "write_keys [] needsWhitespace = []"
| "write_keys (key # ks) needsWhitespace =
     (if needsWhitespace then '' '' else []) @ write_key key @ write_keys ks True"

fun write_block :: "block \<Rightarrow> nat \<Rightarrow> string"
  and write_container :: "container \<Rightarrow> nat \<Rightarrow> string" where
  "write_block (Block ord keys cs) level =
     Repeat [CHR 0x09] level @ write_keys keys False @
     (if length cs > 0
      then (if keys \<noteq> [] then '' '' else []) @ [CHR ''{'', CHR 0x0A] @
           write_container cs (level + 1) @ Repeat [CHR 0x09] level @ ''}''
      else []) @ [CHR 0x0A]"
| "write_container [] level = []"
| "write_container (b # bs) level = write_block b level @ write_container bs level"

definition MarshalContainer :: "container \<Rightarrow> string" where
  "MarshalContainer cs = write_container (sort_container cs) 0"

definition MarshalBlock :: "block \<Rightarrow> string" where
  "MarshalBlock b = write_block (sort_block b) 0"

section \<open>Laws\<close>

lemma write_container_append: "write_container (as @ bs) l = write_container as l @ write_container bs l"
  by (induction as) auto

lemma Marshal_sorted: "sorted_container cs \<Longrightarrow> MarshalContainer cs = write_container cs 0"
  by (simp add: MarshalContainer_def sort_sorted_container)

lemma Marshal_perm: "container_perm cs ds \<Longrightarrow> MarshalContainer cs = MarshalContainer ds"
  by (simp add: MarshalContainer_def container_perm_iff)

end
