(* ===== verification/Lexer.thy ===== *)
theory Lexer
  imports GoStrings
begin

text \<open>
  The tokenizer (\<open>caddyfile/lexer.go\<close>): its state, one iteration of the scanning loop, \<open>next\<close>, and
  the loop of \<open>allTokens\<close> (\<open>caddyfile/marshal.go\<close>) that reads tokens to the end of the input. The
  second half describes how the tokenizer reads each form in which the writer puts down a key.
\<close>

section \<open>State\<close>

record token =
  File :: string
  Line :: int
  Text :: string

record lexer =
  reader :: "rune list"
  ltoken :: token
  line :: int
  skippedLines :: int

text \<open>The local variables of \<open>next\<close>.\<close>

record scan =
  val :: "rune list"
  comment :: bool
  quoted :: bool
  btQuoted :: bool
  escaped :: bool

definition scan0 :: scan where
  "scan0 = \<lparr>val = [], comment = False, quoted = False, btQuoted = False, escaped = False\<rparr>"

abbreviation backslash :: rune where "backslash \<equiv> 92"
abbreviation dquote :: rune where "dquote \<equiv> 34"
abbreviation backtick :: rune where "backtick \<equiv> 96"
abbreviation hash :: rune where "hash \<equiv> 35"
abbreviation newline :: rune where "newline \<equiv> 10"
abbreviation carriage_return :: rune where "carriage_return \<equiv> 13"

section \<open>load\<close>

text \<open>
  The reader yields the runes of the input; the first read fails at the end of an empty input,
  and a byte order mark in front is dropped.
\<close>

definition load :: "string \<Rightarrow> lexer result" where
  "load input =
     (case decode_runes input of
        [] \<Rightarrow> Inl ''EOF''
      | firstCh # rest \<Rightarrow>
          Inr \<lparr>reader = (if firstCh \<noteq> 65279 then firstCh # rest else rest),
               ltoken = \<lparr>File = [], Line = 0, Text = []\<rparr>, line = 1, skippedLines = 0\<rparr>)"

section \<open>next\<close>

definition makeToken :: "lexer \<Rightarrow> scan \<Rightarrow> lexer" where
  "makeToken l s = l\<lparr>ltoken := (ltoken l)\<lparr>Text := encode_runes (val s)\<rparr>\<rparr>"

datatype scan_step = Continue lexer scan | Return lexer

definition count_line :: "lexer \<Rightarrow> lexer" where
  "count_line l = l\<lparr>line := line l + 1 + skippedLines l, skippedLines := 0\<rparr>"

text \<open>The branch inside quotes, once the character is known to be part of the token.\<close>

definition quoted_char :: "rune \<Rightarrow> lexer \<Rightarrow> scan \<Rightarrow> scan_step" where
  "quoted_char ch l s = Continue (if ch = newline then count_line l else l) (s\<lparr>val := val s @ [ch]\<rparr>)"

definition space_char :: "rune \<Rightarrow> lexer \<Rightarrow> scan \<Rightarrow> scan_step" where
  "space_char ch l s =
     (if ch = carriage_return then Continue l s
      else
        let (l', s') =
          (if ch = newline then
             (if escaped s
              then (l\<lparr>skippedLines := skippedLines l + 1\<rparr>, s\<lparr>escaped := False, comment := False\<rparr>)
              else (count_line l, s\<lparr>comment := False\<rparr>))
           else (l, s))
        in if val s' \<noteq> [] then Return (makeToken l' s') else Continue l' s')"

definition plain_char :: "rune \<Rightarrow> lexer \<Rightarrow> scan \<Rightarrow> scan_step" where
  "plain_char ch l s =
     (let s = (if ch = hash \<and> val s = [] then s\<lparr>comment := True\<rparr> else s) in
      if comment s then Continue l s
      else
        let l = (if val s = [] then l\<lparr>ltoken := \<lparr>File = [], Line = line l, Text = []\<rparr>\<rparr> else l) in
        if val s = [] \<and> ch = dquote then Continue l (s\<lparr>quoted := True\<rparr>)
        else if val s = [] \<and> ch = backtick then Continue l (s\<lparr>btQuoted := True\<rparr>)
        else
          let s = (if escaped s then s\<lparr>val := val s @ [backslash], escaped := False\<rparr> else s) in
          Continue l (s\<lparr>val := val s @ [ch]\<rparr>))"

text \<open>One pass of the loop body for the character that was read.\<close>

definition next_step :: "rune \<Rightarrow> lexer \<Rightarrow> scan \<Rightarrow> scan_step" where
  "next_step ch l s =
     (if \<not> escaped s \<and> \<not> btQuoted s \<and> ch = backslash then Continue l (s\<lparr>escaped := True\<rparr>)
      else if quoted s \<or> btQuoted s then
        (if quoted s \<and> escaped s then
           quoted_char ch l
             ((if ch \<noteq> dquote then s\<lparr>val := val s @ [backslash]\<rparr> else s)\<lparr>escaped := False\<rparr>)
         else if quoted s \<and> ch = dquote then Return (makeToken l s)
         else if btQuoted s \<and> ch = backtick then Return (makeToken l s)
         else quoted_char ch l s)
      else if IsSpace ch then space_char ch l s
      else plain_char ch l s)"

fun next_loop :: "rune list \<Rightarrow> lexer \<Rightarrow> scan \<Rightarrow> bool \<times> lexer" where
  "next_loop [] l s =
     (if length (val s) > 0 then (True, makeToken (l\<lparr>reader := []\<rparr>) s) else (False, l\<lparr>reader := []\<rparr>))"
| "next_loop (ch # rest) l s =
     (case next_step ch l s of
        Continue l' s' \<Rightarrow> next_loop rest l' s'
      | Return l' \<Rightarrow> (True, l'\<lparr>reader := rest\<rparr>))"

definition lexer_next :: "lexer \<Rightarrow> bool \<times> lexer" where
  "lexer_next l = next_loop (reader l) l scan0"

text \<open>Every token read consumes input, so the loop that reads all of them ends.\<close>

lemma next_loop_reader: "length (reader (snd (next_loop rs l s))) \<le> length rs"
  by (induction rs l s rule: next_loop.induct)
    (auto simp: makeToken_def le_SucI split: scan_step.splits)

lemma next_loop_shorter:
  "fst (next_loop rs l s) \<Longrightarrow> val s = [] \<Longrightarrow> length (reader (snd (next_loop rs l s))) < length rs"
  using next_loop_reader by (cases rs) (auto simp: less_Suc_eq_le split: scan_step.splits)

lemma lexer_next_shorter:
  "lexer_next l = (True, l') \<Longrightarrow> length (reader l') < length (reader l)"
  using next_loop_shorter [of "reader l" l scan0] by (simp add: lexer_next_def scan0_def)

section \<open>Reading all tokens\<close>

text \<open>The loop of \<open>allTokens\<close>; each token records the file name.\<close>

function lex_all :: "string \<Rightarrow> lexer \<Rightarrow> token list" where
  "lex_all filename l =
     (case lexer_next l of
        (False, _) \<Rightarrow> []
      | (True, l') \<Rightarrow>
          let l'' = l'\<lparr>ltoken := (ltoken l')\<lparr>File := filename\<rparr>\<rparr> in ltoken l'' # lex_all filename l'')"
  by pat_completeness auto
termination
  by (relation "measure (\<lambda>(f, l). length (reader l))") (auto dest: lexer_next_shorter [OF sym])

declare lex_all.simps [simp del]

section \<open>Reading keys back\<close>

text \<open>
  \<open>lexes f rs ln ts rs' ln'\<close>: from the start of a token, with \<open>rs\<close> to read on line \<open>ln\<close>, the
  tokenizer delivers the tokens \<open>ts\<close> and goes on with \<open>rs'\<close> on line \<open>ln'\<close>.
\<close>

definition at_start :: "rune list \<Rightarrow> int \<Rightarrow> token \<Rightarrow> lexer" where
  "at_start rs ln t = \<lparr>reader = rs, ltoken = t, line = ln, skippedLines = 0\<rparr>"

definition lexes :: "string \<Rightarrow> rune list \<Rightarrow> int \<Rightarrow> token list \<Rightarrow> rune list \<Rightarrow> int \<Rightarrow> bool" where
  "lexes f rs ln ts rs' ln' \<longleftrightarrow>
     (\<forall>t. \<exists>t'. lex_all f (at_start rs ln t) = ts @ lex_all f (at_start rs' ln' t'))"

lemma lexes_refl: "lexes f rs ln [] rs ln"
  by (auto simp: lexes_def)

lemma lexes_trans:
  assumes "lexes f rs ln ts rs' ln'" and "lexes f rs' ln' us rs'' ln''"
  shows "lexes f rs ln (ts @ us) rs'' ln''"
  unfolding lexes_def
proof
  fix t
  obtain t' where 1: "lex_all f (at_start rs ln t) = ts @ lex_all f (at_start rs' ln' t')"
    using assms(1) unfolding lexes_def by blast
  obtain t'' where "lex_all f (at_start rs' ln' t') = us @ lex_all f (at_start rs'' ln'' t'')"
    using assms(2) unfolding lexes_def by blast
  with 1 show "\<exists>t'. lex_all f (at_start rs ln t) = (ts @ us) @ lex_all f (at_start rs'' ln'' t')"
    by auto
qed

lemma lex_all_Nil: "lex_all f (at_start [] ln t) = []"
  by (subst lex_all.simps) (simp add: lexer_next_def at_start_def scan0_def)

lemma lexes_end: "lexes f rs ln ts [] ln' \<Longrightarrow> lex_all f (at_start rs ln t) = ts"
  unfolding lexes_def by (metis append_Nil2 lex_all_Nil)

text \<open>The reader in the state is overwritten when \<open>next\<close> returns.\<close>

lemma next_step_reader:
  "next_step ch (l\<lparr>reader := x\<rparr>) s =
     (case next_step ch l s of
        Continue l' s' \<Rightarrow> Continue (l'\<lparr>reader := x\<rparr>) s' | Return l' \<Rightarrow> Return (l'\<lparr>reader := x\<rparr>))"
  by (simp add: next_step_def quoted_char_def space_char_def plain_char_def makeToken_def count_line_def Let_def)

lemma next_loop_reader_irrelevant: "next_loop rs (l\<lparr>reader := x\<rparr>) s = next_loop rs l s"
proof (induction rs l s rule: next_loop.induct)
  case (1 l s)
  show ?case by (simp add: makeToken_def)
next
  case (2 ch rest l s)
  then show ?case by (cases "next_step ch l s") (simp_all add: next_step_reader)
qed

lemma lexer_next_at_start: "next_loop rs (at_start xs ln t) scan0 = lexer_next (at_start rs ln t)"
  using next_loop_reader_irrelevant [of rs rs "at_start xs ln t" scan0]
  by (simp add: lexer_next_def at_start_def)

lemma lex_all_skip:
  assumes "\<And>l. skippedLines l = 0 \<Longrightarrow> next_step ch l scan0 = Continue (l\<lparr>line := line l + k\<rparr>) scan0"
  shows "lex_all f (at_start (ch # rs) ln t) = lex_all f (at_start rs (ln + k) t)"
proof -
  have "lexer_next (at_start (ch # rs) ln t) = lexer_next (at_start rs (ln + k) t)" for t
    using assms [of "at_start (ch # rs) ln t"] lexer_next_at_start [of rs "ch # rs" "ln + k" t]
    by (simp add: lexer_next_def at_start_def)
  then show ?thesis
    by (simp add: lex_all.simps [of f "at_start (ch # rs) ln t"] lex_all.simps [of f "at_start rs (ln + k) t"])
qed

lemma lexes_token:
  assumes "\<And>t. lexer_next (at_start rs ln t) = (True, at_start rs' ln' \<lparr>File = [], Line = k, Text = x\<rparr>)"
  shows "lexes f rs ln [\<lparr>File = f, Line = k, Text = x\<rparr>] rs' ln'"
  unfolding lexes_def
proof
  fix t
  have "lex_all f (at_start rs ln t) =
      \<lparr>File = f, Line = k, Text = x\<rparr> # lex_all f (at_start rs' ln' \<lparr>File = f, Line = k, Text = x\<rparr>)"
    by (subst lex_all.simps) (simp add: assms, simp add: at_start_def)
  then show "\<exists>t'. lex_all f (at_start rs ln t) =
      [\<lparr>File = f, Line = k, Text = x\<rparr>] @ lex_all f (at_start rs' ln' t')" by auto
qed

lemma lex_all_blank: "lex_all f (at_start (32 # rs) ln t) = lex_all f (at_start rs ln t)"
  and lex_all_tab: "lex_all f (at_start (9 # rs) ln t) = lex_all f (at_start rs ln t)"
  and lex_all_newline: "lex_all f (at_start (newline # rs) ln t) = lex_all f (at_start rs (ln + 1) t)"
  using lex_all_skip [of 32 0] lex_all_skip [of 9 0] lex_all_skip [of newline 1]
  by (simp_all add: next_step_def space_char_def IsSpace_def scan0_def count_line_def)

lemma lexes_blank: "lexes f (32 # rs) ln [] rs ln" and lexes_tab: "lexes f (9 # rs) ln [] rs ln"
  and lexes_newline: "lexes f (newline # rs) ln [] rs (ln + 1)"
  by (auto simp: lexes_def lex_all_blank lex_all_tab lex_all_newline)

text \<open>
  Runs of characters in each mode. Outside and inside double quotes a backslash takes the next
  character with it, so a run ends cleanly when no backslash is left open.
\<close>

fun esc_closed :: "rune list \<Rightarrow> bool" where
  "esc_closed [] = True"
| "esc_closed [c] \<longleftrightarrow> c \<noteq> backslash"
| "esc_closed (c # d # cs) = (if c = backslash then esc_closed cs else esc_closed (d # cs))"

abbreviation scan_val :: "rune list \<Rightarrow> bool \<Rightarrow> bool \<Rightarrow> scan" where
  "scan_val v q b \<equiv> \<lparr>val = v, comment = False, quoted = q, btQuoted = b, escaped = False\<rparr>"

lemma plain_run:
  "esc_closed ks \<Longrightarrow> \<forall>c \<in> set ks. \<not> IsSpace c \<Longrightarrow> v \<noteq> [] \<Longrightarrow>
   next_loop (ks @ rest) l (scan_val v False False) = next_loop rest l (scan_val (v @ ks) False False)"
  by (induction ks arbitrary: v rule: esc_closed.induct)
    (auto simp: next_step_def plain_char_def Let_def split: if_splits)

lemma quoted_run:
  "esc_closed ks \<Longrightarrow> \<forall>c \<in> set ks. c \<noteq> dquote \<and> c \<noteq> newline \<Longrightarrow>
   next_loop (ks @ rest) l (scan_val v True False) = next_loop rest l (scan_val (v @ ks) True False)"
  by (induction ks arbitrary: v rule: esc_closed.induct)
    (auto simp: next_step_def quoted_char_def Let_def split: if_splits)

definition newlines :: "rune list \<Rightarrow> int" where
  "newlines rs = int (count_list rs newline)"

lemma newlines_simps [simp]:
  "newlines [] = 0" "newlines (c # cs) = (if c = newline then 1 else 0) + newlines cs"
  "newlines (as @ bs) = newlines as + newlines bs"
  by (simp_all add: newlines_def)

lemma backtick_run:
  "backtick \<notin> set ks \<Longrightarrow> skippedLines l = 0 \<Longrightarrow>
   next_loop (ks @ rest) l (scan_val v False True) =
   next_loop rest (l\<lparr>line := line l + newlines ks\<rparr>) (scan_val (v @ ks) False True)"
proof (induction ks arbitrary: v l)
  case (Cons c cs)
  then show ?case
    using Cons.IH [of "count_line l" "v @ [c]"] Cons.IH [of l "v @ [c]"]
    by (cases l) (auto simp: next_step_def quoted_char_def count_line_def add.assoc)
qed simp

text \<open>The forms in which a key is written, each as the token it is read as.\<close>

definition key_token :: "string \<Rightarrow> int \<Rightarrow> rune list \<Rightarrow> token" where
  "key_token f ln ks = \<lparr>File = f, Line = ln, Text = encode_runes ks\<rparr>"

lemma lexes_backtick:
  assumes "backtick \<notin> set ks"
  shows "lexes f (backtick # ks @ backtick # rest) ln [key_token f ln ks] rest (ln + newlines ks)"
  unfolding key_token_def
proof (rule lexes_token)
  fix t
  let ?l = "\<lparr>reader = backtick # ks @ backtick # rest, ltoken = \<lparr>File = [], Line = ln, Text = []\<rparr>,
    line = ln, skippedLines = 0\<rparr>"
  have "lexer_next (at_start (backtick # ks @ backtick # rest) ln t) =
      next_loop (ks @ backtick # rest) ?l (scan_val [] False True)"
    by (simp add: lexer_next_def at_start_def scan0_def next_step_def plain_char_def IsSpace_def)
  also have "\<dots> = (True, at_start rest (ln + newlines ks) \<lparr>File = [], Line = ln, Text = encode_runes ks\<rparr>)"
    using assms by (simp add: backtick_run next_step_def makeToken_def at_start_def)
  finally show "lexer_next (at_start (backtick # ks @ backtick # rest) ln t) = \<dots>" .
qed

lemma lexes_dquote:
  assumes "esc_closed ks" and "\<forall>c \<in> set ks. c \<noteq> dquote \<and> c \<noteq> newline"
  shows "lexes f (dquote # ks @ dquote # rest) ln [key_token f ln ks] rest ln"
  unfolding key_token_def
proof (rule lexes_token)
  fix t
  let ?l = "\<lparr>reader = dquote # ks @ dquote # rest, ltoken = \<lparr>File = [], Line = ln, Text = []\<rparr>,
    line = ln, skippedLines = 0\<rparr>"
  have "lexer_next (at_start (dquote # ks @ dquote # rest) ln t) =
      next_loop (ks @ dquote # rest) ?l (scan_val [] True False)"
    by (simp add: lexer_next_def at_start_def scan0_def next_step_def plain_char_def IsSpace_def)
  also have "\<dots> = (True, at_start rest ln \<lparr>File = [], Line = ln, Text = encode_runes ks\<rparr>)"
    using assms by (simp add: quoted_run next_step_def makeToken_def at_start_def)
  finally show "lexer_next (at_start (dquote # ks @ dquote # rest) ln t) = \<dots>" .
qed

text \<open>
  A key written as it is: no white space or double quote in it, no backslash left open, and its
  first character, escaped or not, does not start a comment or a quoted token.
\<close>

definition plain_key :: "rune list \<Rightarrow> bool" where
  "plain_key ks \<longleftrightarrow>
     ks \<noteq> [] \<and> esc_closed ks \<and> (\<forall>c \<in> set ks. \<not> IsSpace c \<and> c \<noteq> dquote) \<and>
     hd ks \<notin> {hash, backtick} \<and> (hd ks = backslash \<longrightarrow> ks ! 1 \<notin> {hash, backtick})"

lemma plain_start:
  assumes "plain_key ks"
  shows "next_loop (ks @ rest) (at_start xs ln t) scan0 =
    next_loop rest (at_start xs ln \<lparr>File = [], Line = ln, Text = []\<rparr>) (scan_val ks False False)"
proof -
  obtain c cs where ks: "ks = c # cs" using assms by (cases ks) (auto simp: plain_key_def)
  show ?thesis
  proof (cases "c = backslash")
    case False
    have "esc_closed cs" using assms False ks by (cases cs) (auto simp: plain_key_def)
    then show ?thesis
      using assms False ks
      by (simp add: plain_key_def scan0_def next_step_def plain_char_def at_start_def plain_run)
  next
    case True
    then obtain d ds where cs: "cs = d # ds" using assms ks by (cases cs) (auto simp: plain_key_def)
    have "esc_closed ds" using assms ks cs True by (simp add: plain_key_def)
    then show ?thesis
      using assms True ks cs
      by (simp add: plain_key_def scan0_def next_step_def plain_char_def at_start_def plain_run)
  qed
qed

lemma lexes_plain:
  assumes "plain_key ks" and c: "c = 32 \<or> c = newline"
  shows "lexes f (ks @ c # rest) ln [key_token f ln ks] (c # rest) ln"
proof -
  let ?ln = "if c = newline then ln + 1 else ln"
  have ks: "ks \<noteq> []" using assms(1) by (simp add: plain_key_def)
  have "lexes f (ks @ c # rest) ln [key_token f ln ks] rest ?ln"
    unfolding key_token_def
  proof (rule lexes_token)
    fix t
    show "lexer_next (at_start (ks @ c # rest) ln t) =
        (True, at_start rest ?ln \<lparr>File = [], Line = ln, Text = encode_runes ks\<rparr>)"
      using plain_start [OF assms(1), of "c # rest" "ks @ c # rest" ln t] ks c
      by (auto simp: lexer_next_def at_start_def next_step_def space_char_def IsSpace_def
          makeToken_def count_line_def)
  qed
  then show ?thesis
    using c by (auto simp: lexes_def lex_all_blank lex_all_newline)
qed

lemma lexes_plain_end:
  assumes "plain_key ks"
  shows "lexes f ks ln [key_token f ln ks] [] ln"
  unfolding key_token_def
proof (rule lexes_token)
  fix t
  have ks: "ks \<noteq> []" using assms by (simp add: plain_key_def)
  show "lexer_next (at_start ks ln t) = (True, at_start [] ln \<lparr>File = [], Line = ln, Text = encode_runes ks\<rparr>)"
    using plain_start [OF assms, of "[]" ks ln t] ks
    by (simp add: lexer_next_def at_start_def makeToken_def)
qed

end
