(* ===== verification/TreeStore.thy ===== *)
theory TreeStore
  imports Block
begin

text \<open>
  Pointers into a tree of blocks. The code keeps \<open>*Block\<close> and \<open>*Container\<close> pointers while it
  builds a tree (the stack and current block of \<open>parseContainer\<close>, \<open>blocksByPath\<close> of
  \<open>FromLabels\<close>). Both only append children, so the indices that lead to a block never change and
  name it: a position is the pointer. The locale \<open>tree_store\<close> is the interface its clients use,
  stated on an abstract view of the tree; it is interpreted on containers below.
\<close>

type_synonym pos = "nat list"

section \<open>Access and update at a position\<close>

fun container_at :: "container \<Rightarrow> pos \<Rightarrow> container option" where
  "container_at cs [] = Some cs"
| "container_at cs (i # p) = (if i < length cs then container_at (Children (cs ! i)) p else None)"

fun block_at :: "container \<Rightarrow> pos \<Rightarrow> block option" where
  "block_at cs [] = None"
| "block_at cs (i # p) =
     (if i < length cs then (if p = [] then Some (cs ! i) else block_at (Children (cs ! i)) p) else None)"

fun update_container :: "(container \<Rightarrow> container) \<Rightarrow> pos \<Rightarrow> container \<Rightarrow> container" where
  "update_container f [] cs = f cs"
| "update_container f (i # p) cs =
     (if i < length cs
      then cs[i := Block (Order (cs ! i)) (Keys (cs ! i)) (update_container f p (Children (cs ! i)))]
      else cs)"

fun update_block :: "(block \<Rightarrow> block) \<Rightarrow> pos \<Rightarrow> container \<Rightarrow> container" where
  "update_block f [] cs = cs"
| "update_block f (i # p) cs =
     (if i < length cs
      then cs[i := (if p = [] then f (cs ! i)
                    else Block (Order (cs ! i)) (Keys (cs ! i)) (update_block f p (Children (cs ! i))))]
      else cs)"

text \<open>The two mutations through a pointer.\<close>

definition AddBlockAt :: "pos \<Rightarrow> block \<Rightarrow> container \<Rightarrow> container" where
  "AddBlockAt p b = update_container (AddBlock b) p"

definition AddKeysAt :: "pos \<Rightarrow> string list \<Rightarrow> container \<Rightarrow> container" where
  "AddKeysAt p ks = update_block (AddKeys ks) p"

section \<open>Laws of the concrete operations\<close>

lemma container_at_append:
  "container_at cs (p @ q) = (case container_at cs p of None \<Rightarrow> None | Some ds \<Rightarrow> container_at ds q)"
  by (induction p arbitrary: cs) auto

lemma container_at_block: "p \<noteq> [] \<Longrightarrow> container_at cs p = map_option Children (block_at cs p)"
  by (induction p arbitrary: cs) auto

lemma block_at_snoc:
  "block_at cs (p @ [i]) =
     (case container_at cs p of None \<Rightarrow> None | Some ds \<Rightarrow> if i < length ds then Some (ds ! i) else None)"
  by (induction p arbitrary: cs) auto

lemma container_at_update_same [block_simps]:
  "container_at cs p = Some ds \<Longrightarrow> container_at (update_container f p cs) p = Some (f ds)"
  by (induction p arbitrary: cs) (auto split: if_splits)

lemma update_container_compose [block_simps]:
  "update_container g p (update_container f p cs) = update_container (\<lambda>x. g (f x)) p cs"
  by (induction p arbitrary: cs) auto

lemma update_container_cong:
  "container_at cs p = Some ds \<Longrightarrow> f ds = g ds \<Longrightarrow> update_container f p cs = update_container g p cs"
  by (induction p arbitrary: cs) (auto split: if_splits)

lemma update_container_id: "update_container (\<lambda>x. x) p cs = cs"
  by (induction p arbitrary: cs) (auto simp: list_update_same_conv)

lemma update_container_snoc:
  "update_container f (p @ [i]) cs =
   update_container (\<lambda>ds. if i < length ds
     then ds[i := Block (Order (ds ! i)) (Keys (ds ! i)) (f (Children (ds ! i)))] else ds) p cs"
  by (induction p arbitrary: cs) auto

lemma update_block_snoc:
  "update_block f (p @ [i]) cs =
   update_container (\<lambda>ds. if i < length ds then ds[i := f (ds ! i)] else ds) p cs"
  by (induction p arbitrary: cs) auto

text \<open>A block that was just appended is the last child.\<close>

lemma update_appended_children:
  assumes "container_at cs p = Some ds" and "i = length ds"
  shows "update_container g (p @ [i]) (update_container (\<lambda>ds. ds @ [Block o' ks c]) p cs) =
         update_container (\<lambda>ds. ds @ [Block o' ks (g c)]) p cs"
  unfolding update_container_snoc update_container_compose
  by (rule update_container_cong [OF assms(1)]) (simp add: assms(2))

lemma AddKeysAt_appended:
  assumes "container_at cs p = Some ds" and "i = length ds"
  shows "AddKeysAt (p @ [i]) ks' (update_container (\<lambda>ds. ds @ [Block o' ks c]) p cs) =
         update_container (\<lambda>ds. ds @ [Block o' (ks @ ks') c]) p cs"
  unfolding AddKeysAt_def update_block_snoc update_container_compose
  by (rule update_container_cong [OF assms(1)]) (simp add: assms(2))

lemma container_at_appended:
  assumes "container_at cs p = Some ds" and "i = length ds"
  shows "container_at (update_container (\<lambda>ds. ds @ [Block o' ks c]) p cs) (p @ [i]) = Some c"
  using container_at_update_same [OF assms(1)] assms(2) by (simp add: container_at_append)

section \<open>The interface\<close>

text \<open>
  \<open>node t x\<close> is the order and the keys of the block at \<open>x\<close>, \<open>width t x\<close> the number of children
  of the container at \<open>x\<close> (the root is \<open>[]\<close>).
\<close>

definition hangs_at :: "(string \<Rightarrow> string) \<Rightarrow> (string \<rightharpoonup> pos) \<Rightarrow> string \<Rightarrow> pos \<Rightarrow> bool" where
  "hangs_at par L p x \<longleftrightarrow>
     (if par p = [] then \<exists>i. x = [i] else \<exists>u i. L (par p) = Some u \<and> x = u @ [i])"

lemma hangs_at_upd: "hangs_at par L q x \<Longrightarrow> L p = None \<Longrightarrow> hangs_at par (L(p \<mapsto> y)) q x"
  by (auto simp: hangs_at_def split: if_splits)

locale tree_store =
  fixes node :: "'t \<Rightarrow> pos \<Rightarrow> (int \<times> string list) option"
    and width :: "'t \<Rightarrow> pos \<Rightarrow> nat option"
    and new :: 't
    and add_block :: "pos \<Rightarrow> block \<Rightarrow> 't \<Rightarrow> 't"
    and add_keys :: "pos \<Rightarrow> string list \<Rightarrow> 't \<Rightarrow> 't"
  assumes width_root: "width t [] \<noteq> None"
    and width_node: "x \<noteq> [] \<Longrightarrow> width t x = None \<longleftrightarrow> node t x = None"
    and node_root: "node t [] = None"
    and node_child: "node t (x @ [i]) \<noteq> None \<longleftrightarrow> (\<exists>n. width t x = Some n \<and> i < n)"
    and node_new: "node new x = None"
    and node_add_block: "width t x = Some n \<Longrightarrow> Children b = [] \<Longrightarrow>
      node (add_block x b t) = (node t)(x @ [n] \<mapsto> (Order b, Keys b))"
    and width_add_block: "width t x = Some n \<Longrightarrow> Children b = [] \<Longrightarrow>
      width (add_block x b t) = (width t)(x \<mapsto> Suc n, x @ [n] \<mapsto> 0)"
    and node_add_keys: "node t x = Some (ord, ks) \<Longrightarrow>
      node (add_keys x ks' t) = (node t)(x \<mapsto> (ord, ks @ ks'))"
    and width_add_keys: "width (add_keys x ks' t) = width t"
begin

lemma node_width: "node t x \<noteq> None \<Longrightarrow> width t x \<noteq> None"
  using width_node [of x t] node_root [of t] by fastforce

text \<open>
  A store labelled by names: the map \<open>L\<close> gives each name its position, \<open>par\<close> its parent's name
  (\<open>''''\<close> under the root), and \<open>ord\<close>, \<open>ks\<close> what its block holds.
\<close>

definition labelled ::
  "(string \<Rightarrow> string) \<Rightarrow> (string \<Rightarrow> int) \<Rightarrow> (string \<Rightarrow> string list) \<Rightarrow> (string \<rightharpoonup> pos) \<Rightarrow> 't \<Rightarrow> bool" where
  "labelled par ord ks L t \<longleftrightarrow>
     (\<forall>p q x. L p = Some x \<and> L q = Some x \<longrightarrow> p = q) \<and>
     (\<forall>p x. L p = Some x \<longrightarrow> node t x = Some (ord p, ks p) \<and> hangs_at par L p x) \<and>
     (\<forall>x. node t x \<noteq> None \<longrightarrow> (\<exists>p. L p = Some x))"

lemma labelled_new: "labelled par ord ks Map.empty new"
  by (simp add: labelled_def node_new)

lemma labelled_add_keys:
  assumes "labelled par ord ks L t" and p: "L p = Some x"
  shows "labelled par ord (ks(p := ks p @ ks')) L (add_keys x ks' t)"
proof -
  have "node t x = Some (ord p, ks p)" using assms unfolding labelled_def by blast
  from node_add_keys [OF this]
  have n: "node (add_keys x ks' t) = (node t)(x \<mapsto> (ord p, ks p @ ks'))" .
  have inj: "\<And>q. L q = Some x \<Longrightarrow> q = p" using assms unfolding labelled_def by blast
  show ?thesis
    using assms inj unfolding labelled_def n by auto
qed

lemma labelled_add_block:
  assumes l: "labelled par ord ks L t" and new_name: "L p = None" and leaf: "Children b = []"
    and u: "if par p = [] then u = [] else L (par p) = Some u" and n: "width t u = Some n"
    and b: "Order b = ord p" "Keys b = ks p"
  shows "labelled par ord ks (L(p \<mapsto> u @ [n])) (add_block u b t)"
proof -
  have node': "node (add_block u b t) = (node t)(u @ [n] \<mapsto> (ord p, ks p))"
    using node_add_block [OF n leaf] b by simp
  have fresh: "node t (u @ [n]) = None" using node_child [of t u n] n by (auto simp del: not_None_eq)
  then have unused: "\<And>q. L q \<noteq> Some (u @ [n])" using l unfolding labelled_def by force
  show ?thesis
    unfolding labelled_def node'
  proof (intro conjI allI impI)
    fix q q' x
    assume "(L(p \<mapsto> u @ [n])) q = Some x \<and> (L(p \<mapsto> u @ [n])) q' = Some x"
    then show "q = q'" using l unused unfolding labelled_def by (auto split: if_splits)
  next
    fix q x
    assume q: "(L(p \<mapsto> u @ [n])) q = Some x"
    show "((node t)(u @ [n] \<mapsto> (ord p, ks p))) x = Some (ord q, ks q)"
      using q l unused unfolding labelled_def by (auto split: if_splits)
    show "hangs_at par (L(p \<mapsto> u @ [n])) q x"
    proof (cases "q = p")
      case True
      then show ?thesis using q u new_name by (auto simp: hangs_at_def split: if_splits)
    next
      case False
      then show ?thesis using q l new_name unfolding labelled_def by (simp add: hangs_at_upd)
    qed
  next
    fix x assume x: "((node t)(u @ [n] \<mapsto> (ord p, ks p))) x \<noteq> None"
    show "\<exists>q. (L(p \<mapsto> u @ [n])) q = Some x"
    proof (cases "x = u @ [n]")
      case True
      then have "(L(p \<mapsto> u @ [n])) p = Some x" by simp
      then show ?thesis ..
    next
      case False
      with x have "node t x \<noteq> None" by simp
      then obtain q where q: "L q = Some x" using l unfolding labelled_def by blast
      with new_name have "(L(p \<mapsto> u @ [n])) q = Some x" by auto
      then show ?thesis ..
    qed
  qed
qed

text \<open>The position of a name has a width: a child can be added there.\<close>

lemma labelled_width: "labelled par ord ks L t \<Longrightarrow> L p = Some x \<Longrightarrow> \<exists>n. width t x = Some n"
  using width_node [of x t] node_root [of t] unfolding labelled_def by (metis not_None_eq option.discI)

end

section \<open>Containers are such a store\<close>

definition node_at :: "container \<Rightarrow> pos \<Rightarrow> (int \<times> string list) option" where
  "node_at cs x = map_option (\<lambda>b. (Order b, Keys b)) (block_at cs x)"

definition width_at :: "container \<Rightarrow> pos \<Rightarrow> nat option" where
  "width_at cs x = map_option length (container_at cs x)"

lemma node_at_simps [simp]:
  "node_at cs [] = None"
  "node_at cs (i # p) =
     (if i < length cs then (if p = [] then Some (Order (cs ! i), Keys (cs ! i)) else node_at (Children (cs ! i)) p)
      else None)"
  by (simp_all add: node_at_def)

lemma width_at_simps [simp]:
  "width_at cs [] = Some (length cs)"
  "width_at cs (i # p) = (if i < length cs then width_at (Children (cs ! i)) p else None)"
  by (simp_all add: width_at_def)

lemma node_at_add_block:
  "width_at cs x = Some n \<Longrightarrow> Children b = [] \<Longrightarrow>
   node_at (AddBlockAt x b cs) y = ((node_at cs)(x @ [n] \<mapsto> (Order b, Keys b))) y"
proof (induction x arbitrary: cs y)
  case Nil
  then show ?case
    by (cases y; cases "tl y") (auto simp: AddBlockAt_def AddBlock_def nth_append)
next
  case (Cons i x)
  then show ?case
    by (cases y) (auto simp: AddBlockAt_def nth_list_update split: if_splits)
qed

lemma width_at_add_block:
  "width_at cs x = Some n \<Longrightarrow> Children b = [] \<Longrightarrow>
   width_at (AddBlockAt x b cs) y = ((width_at cs)(x \<mapsto> Suc n, x @ [n] \<mapsto> 0)) y"
proof (induction x arbitrary: cs y)
  case Nil
  then show ?case
    by (cases y; cases "tl y") (auto simp: AddBlockAt_def AddBlock_def nth_append)
next
  case (Cons i x)
  then show ?case
    by (cases y) (auto simp: AddBlockAt_def nth_list_update split: if_splits)
qed

lemma node_at_add_keys:
  "node_at cs x = Some (ord, ks) \<Longrightarrow>
   node_at (AddKeysAt x ks' cs) y = ((node_at cs)(x \<mapsto> (ord, ks @ ks'))) y"
proof (induction x arbitrary: cs y)
  case Nil
  then show ?case by simp
next
  case (Cons i x)
  then show ?case
    by (cases y) (auto simp: AddKeysAt_def nth_list_update split: if_splits)
qed

lemma width_at_add_keys: "width_at (AddKeysAt x ks' cs) y = width_at cs y"
proof (induction x arbitrary: cs y)
  case Nil
  then show ?case by (simp add: AddKeysAt_def)
next
  case (Cons i x)
  then show ?case
    by (cases y) (auto simp: AddKeysAt_def nth_list_update split: if_splits)
qed

lemma node_at_child: "node_at cs (x @ [i]) \<noteq> None \<longleftrightarrow> (\<exists>n. width_at cs x = Some n \<and> i < n)"
  by (auto simp: node_at_def width_at_def block_at_snoc split: option.splits)

interpretation container_store: tree_store node_at width_at CreateContainer AddBlockAt AddKeysAt
proof unfold_locales
  fix x t
  show "x \<noteq> [] \<Longrightarrow> (width_at t x = None) = (node_at t x = None)"
    by (simp add: width_at_def node_at_def container_at_block)
  show "node_at CreateContainer x = None"
    by (cases x) (simp_all add: CreateContainer_def)
  show "(node_at t (x @ [i]) \<noteq> None) = (\<exists>n. width_at t x = Some n \<and> i < n)" for i
    by (rule node_at_child)
qed (simp_all add: node_at_add_block node_at_add_keys width_at_add_keys width_at_add_block fun_eq_iff)

end
