(* ===== verification/Unmarshal.thy ===== *)
theory Unmarshal
  imports TreeStore Lexer "HOL-Library.While_Combinator"
begin

text \<open>
  Parsing Caddyfile text into a container (\<open>Unmarshal\<close>, \<open>allTokens\<close> and \<open>parseContainer\<close> of
  \<open>caddyfile/marshal.go\<close>). The stack of open containers and the current block are pointers, here
  positions in the root container.
\<close>

section \<open>The parser\<close>

datatype unmarshal_error = ReadError string | UnexpectedBrace int | NilPointer

record parse_state =
  rootContainer :: container
  stack :: "pos list"
  isNewBlock :: bool
  tokenLine :: int
  currentBlock :: "pos option"

definition init_state :: parse_state where
  "init_state = \<lparr>rootContainer = CreateContainer, stack = [[]], isNewBlock = True, tokenLine = -1, currentBlock = None\<rparr>"

definition strings_Count :: "string \<Rightarrow> char \<Rightarrow> int" where
  "strings_Count s c = int (count_list s c)"

text \<open>The first lines of the loop body: a token on another line starts a new block.\<close>

definition note_line :: "token \<Rightarrow> parse_state \<Rightarrow> parse_state" where
  "note_line t s =
     (if Line t \<noteq> tokenLine s
      then s\<lparr>isNewBlock := (if tokenLine s \<noteq> -1 then True else isNewBlock s), tokenLine := Line t\<rparr>
      else s)"

definition open_block :: "parse_state \<Rightarrow> parse_state" where
  "open_block s =
     (if isNewBlock s then
        let parent = last (stack s);
            n = (case container_at (rootContainer s) parent of None \<Rightarrow> 0 | Some cs \<Rightarrow> length cs)
        in s\<lparr>rootContainer := AddBlockAt parent (Block (int n) [] CreateContainer) (rootContainer s),
             currentBlock := Some (parent @ [n]), isNewBlock := False\<rparr>
      else s)"

text \<open>
  The loop body. A nil current block would be dereferenced in the last branches; that outcome is
  \<open>NilPointer\<close>.
\<close>

definition parse_token :: "token \<Rightarrow> parse_state \<Rightarrow> unmarshal_error + parse_state" where
  "parse_token t s =
     (let s = note_line t s in
      if Text t = ''}'' then
        (if length (stack s) = 1 then Inl (UnexpectedBrace (Line t))
         else Inr (s\<lparr>stack := butlast (stack s)\<rparr>))
      else
        let s = open_block s in
        case currentBlock s of
          None \<Rightarrow> Inl NilPointer
        | Some cur \<Rightarrow>
            if Text t = ''{'' then Inr (s\<lparr>stack := stack s @ [cur]\<rparr>)
            else Inr (s\<lparr>rootContainer := AddKeysAt cur [Text t] (rootContainer s),
                        tokenLine := tokenLine s + strings_Count (Text t) (CHR 0x0A)\<rparr>))"

fun parse_tokens :: "token list \<Rightarrow> parse_state \<Rightarrow> unmarshal_error + parse_state" where
  "parse_tokens [] s = Inr s"
| "parse_tokens (t # ts) s = (case parse_token t s of Inl e \<Rightarrow> Inl e | Inr s' \<Rightarrow> parse_tokens ts s')"

definition parseContainer :: "token list \<Rightarrow> unmarshal_error + container" where
  "parseContainer tokens =
     (case parse_tokens tokens init_state of Inl e \<Rightarrow> Inl e | Inr s \<Rightarrow> Inr (rootContainer s))"

definition allTokens :: "string \<Rightarrow> string \<Rightarrow> token list result" where
  "allTokens filename input =
     (case load input of Inl e \<Rightarrow> Inl e | Inr l \<Rightarrow> Inr (lex_all filename l))"

definition Unmarshal :: "string \<Rightarrow> unmarshal_error + container" where
  "Unmarshal caddyfileContent =
     (case allTokens [] caddyfileContent of
        Inl e \<Rightarrow> Inl (ReadError e)
      | Inr tokens \<Rightarrow> parseContainer tokens)"

text \<open>\<open>err.Error()\<close>.\<close>

fun unmarshal_error_text :: "unmarshal_error \<Rightarrow> string" where
  "unmarshal_error_text (ReadError e) = e"
| "unmarshal_error_text (UnexpectedBrace n) = ''Unexpected token '' @ [CHR 0x27] @ ''}'' @ [CHR 0x27] @ '' at line '' @ Itoa n"
| "unmarshal_error_text NilPointer = ''nil pointer dereference''"

section \<open>What the parser keeps\<close>

text \<open>
  Every position on the stack and the current block exist in the tree, the stack is never empty
  and its bottom is the root. Until the first block is created, a block is about to be created.
\<close>

definition parse_inv :: "parse_state \<Rightarrow> bool" where
  "parse_inv s \<longleftrightarrow>
     stack s \<noteq> [] \<and> hd (stack s) = [] \<and>
     (\<forall>p \<in> set (stack s). width_at (rootContainer s) p \<noteq> None) \<and>
     (currentBlock s = None \<longrightarrow> isNewBlock s) \<and>
     (\<forall>p. currentBlock s = Some p \<longrightarrow> node_at (rootContainer s) p \<noteq> None)"

lemma parse_inv_init: "parse_inv init_state"
  by (simp add: parse_inv_def init_state_def)

lemma note_line_inv: "parse_inv s \<Longrightarrow> parse_inv (note_line t s)"
  by (auto simp: parse_inv_def note_line_def split: option.splits)

lemma open_block_inv:
  assumes "parse_inv s"
  shows "parse_inv (open_block s)" and "currentBlock (open_block s) \<noteq> None"
proof -
  have "last (stack s) \<in> set (stack s)" using assms by (simp add: parse_inv_def)
  then have "width_at (rootContainer s) (last (stack s)) \<noteq> None"
    using assms unfolding parse_inv_def by blast
  then obtain cs where cs: "container_at (rootContainer s) (last (stack s)) = Some cs"
    by (auto simp: width_at_def)
  then have w: "width_at (rootContainer s) (last (stack s)) = Some (length cs)" by (simp add: width_at_def)
  show "parse_inv (open_block s)"
    using assms cs container_store.node_add_block [OF w] container_store.width_add_block [OF w]
    by (auto simp: parse_inv_def open_block_def CreateContainer_def Let_def)
  show "currentBlock (open_block s) \<noteq> None"
    using assms by (auto simp: parse_inv_def open_block_def Let_def split: option.splits)
qed

lemma parse_token_cases [consumes 1, case_names close_root close_brace open_brace key]:
  assumes "parse_inv s"
  obtains (close_root) "Text t = ''}''" "parse_token t s = Inl (UnexpectedBrace (Line t))"
    | (close_brace) "Text t = ''}''" "length (stack s) \<noteq> 1"
        "parse_token t s = Inr ((note_line t s)\<lparr>stack := butlast (stack s)\<rparr>)"
    | (open_brace) cur where "Text t = ''{''" "currentBlock (open_block (note_line t s)) = Some cur"
        "parse_token t s = Inr ((open_block (note_line t s))\<lparr>stack := stack s @ [cur]\<rparr>)"
    | (key) cur s' where "Text t \<noteq> ''}''" "Text t \<noteq> ''{''" "s' = open_block (note_line t s)"
        "currentBlock s' = Some cur"
        "parse_token t s = Inr (s'\<lparr>rootContainer := AddKeysAt cur [Text t] (rootContainer s'),
           tokenLine := tokenLine s' + strings_Count (Text t) (CHR 0x0A)\<rparr>)"
proof -
  have st: "stack (note_line t s) = stack s" "stack (open_block (note_line t s)) = stack s"
    by (simp_all add: note_line_def open_block_def Let_def)
  obtain cur where cur: "currentBlock (open_block (note_line t s)) = Some cur"
    using open_block_inv(2) [OF note_line_inv [OF assms], of t] by blast
  consider "Text t = ''}'' \<and> length (stack s) = 1" | "Text t = ''}'' \<and> length (stack s) \<noteq> 1"
    | "Text t = ''{''" | "Text t \<noteq> ''}'' \<and> Text t \<noteq> ''{''" by blast
  then show thesis
  proof cases
    case 1
    then show thesis by (intro close_root) (simp_all add: parse_token_def st Let_def)
  next
    case 2
    then show thesis by (intro close_brace) (simp_all add: parse_token_def st Let_def)
  next
    case 3
    then show thesis using cur by (intro open_brace) (simp_all add: parse_token_def st Let_def)
  next
    case 4
    then show thesis using cur by (intro key [OF _ _ refl]) (simp_all add: parse_token_def st Let_def)
  qed
qed

lemma parse_token_inv:
  assumes s: "parse_inv s" and step: "parse_token t s = Inr s'"
  shows "parse_inv s'"
  using s
proof (cases rule: parse_token_cases [where t = t])
  case close_root
  with step show ?thesis by simp
next
  case close_brace
  have "parse_inv (note_line t s)" using s by (rule note_line_inv)
  moreover have "stack (note_line t s) = stack s" by (simp add: note_line_def)
  moreover have "butlast (stack s) \<noteq> [] \<and> hd (butlast (stack s)) = hd (stack s)"
    using s close_brace(2) by (cases "stack s" rule: rev_cases) (auto simp: parse_inv_def hd_append)
  ultimately show ?thesis
    using step close_brace(3) by (auto simp: parse_inv_def dest!: in_set_butlastD)
next
  case (open_brace cur)
  have "parse_inv (open_block (note_line t s))" using s by (intro open_block_inv note_line_inv)
  moreover have "stack (open_block (note_line t s)) = stack s"
    by (simp add: note_line_def open_block_def Let_def)
  moreover from calculation(1) have "width_at (rootContainer (open_block (note_line t s))) cur \<noteq> None"
    using open_brace(2) by (intro container_store.node_width) (simp add: parse_inv_def)
  ultimately show ?thesis
    using step open_brace by (auto simp: parse_inv_def hd_append)
next
  case (key cur s1)
  have s1: "parse_inv s1" unfolding key(3) using s by (intro open_block_inv note_line_inv)
  then obtain o' ks where "node_at (rootContainer s1) cur = Some (o', ks)"
    using key(4) by (auto simp: parse_inv_def)
  from container_store.node_add_keys [OF this] show ?thesis
    using step key s1 by (auto simp: parse_inv_def container_store.width_add_keys)
qed

lemma parse_token_no_nil: "parse_inv s \<Longrightarrow> parse_token t s \<noteq> Inl NilPointer"
  by (erule parse_token_cases [where t = t]) auto

lemma parse_tokens_no_nil: "parse_inv s \<Longrightarrow> parse_tokens ts s \<noteq> Inl NilPointer"
  by (induction ts arbitrary: s) (auto split: sum.splits dest: parse_token_inv simp: parse_token_no_nil)

lemma parse_tokens_append:
  "parse_tokens (ts @ us) s = (case parse_tokens ts s of Inl e \<Rightarrow> Inl e | Inr s' \<Rightarrow> parse_tokens us s')"
  by (induction ts arbitrary: s) (auto split: sum.split)

text \<open>
  The parser fails exactly on a closing brace that closes nothing: \<open>depth\<close> counts the braces
  open before each token.
\<close>

fun unexpected_brace :: "nat \<Rightarrow> token list \<Rightarrow> int option" where
  "unexpected_brace d [] = None"
| "unexpected_brace d (t # ts) =
     (if Text t = ''}'' then (if d = 0 then Some (Line t) else unexpected_brace (d - 1) ts)
      else if Text t = ''{'' then unexpected_brace (d + 1) ts else unexpected_brace d ts)"

lemma parse_tokens_result:
  "parse_inv s \<Longrightarrow>
   (case unexpected_brace (length (stack s) - 1) ts of
      Some n \<Rightarrow> parse_tokens ts s = Inl (UnexpectedBrace n)
    | None \<Rightarrow> \<exists>s'. parse_tokens ts s = Inr s')"
proof (induction ts arbitrary: s)
  case Nil
  then show ?case by simp
next
  case (Cons t ts)
  have len: "length (stack s) \<noteq> 0" using Cons.prems by (simp add: parse_inv_def)
  have next_inv: "\<And>s'. parse_token t s = Inr s' \<Longrightarrow> parse_inv s'"
    using Cons.prems parse_token_inv by blast
  show ?case
    using Cons.prems
  proof (cases rule: parse_token_cases [where t = t])
    case close_root
    then have "length (stack s) = 1"
      by (auto simp: parse_token_def Let_def note_line_def split: if_splits)
    with close_root show ?thesis by simp
  next
    case close_brace
    have "length (stack s) - 1 \<noteq> 0" using len close_brace(2) by linarith
    then show ?thesis using Cons.IH [OF next_inv [OF close_brace(3)]] close_brace by (simp split: option.splits)
  next
    case (open_brace cur)
    then show ?thesis using Cons.IH [OF next_inv [OF open_brace(3)]] len by (simp split: option.splits)
  next
    case (key cur s1)
    have "stack s1 = stack s" unfolding key(3) by (simp add: note_line_def open_block_def Let_def)
    with key show ?thesis using Cons.IH [OF next_inv [OF key(5)]] len by (simp split: option.splits)
  qed
qed

lemma parseContainer_result:
  "parseContainer ts = Inl e \<longleftrightarrow> (\<exists>n. unexpected_brace 0 ts = Some n \<and> e = UnexpectedBrace n)"
  using parse_tokens_result [OF parse_inv_init, of ts]
  by (auto simp: parseContainer_def init_state_def split: option.splits sum.splits)

section \<open>The loop that reads tokens\<close>

text \<open>The loop of \<open>allTokens\<close> as it is written: the body runs as long as \<open>next\<close> delivers a token.\<close>

definition token_step :: "string \<Rightarrow> bool \<times> lexer \<times> token list \<Rightarrow> bool \<times> lexer \<times> token list" where
  "token_step filename s =
     (case s of (running, l, tokens) \<Rightarrow>
      case lexer_next l of
        (False, l) \<Rightarrow> (False, l, tokens)
      | (True, l) \<Rightarrow>
          let l = l\<lparr>ltoken := (ltoken l)\<lparr>File := filename\<rparr>\<rparr> in (True, l, tokens @ [ltoken l]))"

definition token_loop :: "string \<Rightarrow> lexer \<Rightarrow> (bool \<times> lexer \<times> token list) option" where
  "token_loop filename l = while_option fst (token_step filename) (True, l, [])"

lemma while_tokens:
  "\<exists>l'. while_option fst (token_step filename) (True, l, tokens) = Some (False, l', tokens @ lex_all filename l)"
proof (induction "length (reader l)" arbitrary: l tokens rule: less_induct)
  case less
  obtain running l1 where n: "lexer_next l = (running, l1)" by fastforce
  show ?case
  proof (cases running)
    case True
    let ?l2 = "l1\<lparr>ltoken := (ltoken l1)\<lparr>File := filename\<rparr>\<rparr>"
    have "length (reader ?l2) < length (reader l)" using lexer_next_shorter [of l l1] n True by simp
    from less [OF this, of "tokens @ [ltoken ?l2]"]
    obtain l' where "while_option fst (token_step filename) (True, ?l2, tokens @ [ltoken ?l2]) =
        Some (False, l', (tokens @ [ltoken ?l2]) @ lex_all filename ?l2)" by blast
    then show ?thesis
      using n True by (subst while_option_unfold) (simp add: token_step_def Let_def lex_all.simps [of filename l])
  next
    case False
    then show ?thesis
      using n by (subst while_option_unfold, subst while_option_unfold) (simp add: token_step_def lex_all.simps)
  qed
qed

lemma length_lex_all: "length (lex_all filename l) \<le> length (reader l)"
proof (induction "length (reader l)" arbitrary: l rule: less_induct)
  case less
  obtain running l1 where n: "lexer_next l = (running, l1)" by fastforce
  show ?case
  proof (cases running)
    case True
    let ?l2 = "l1\<lparr>ltoken := (ltoken l1)\<lparr>File := filename\<rparr>\<rparr>"
    have "length (reader ?l2) < length (reader l)" using lexer_next_shorter [of l l1] n True by simp
    from less [OF this] this show ?thesis
      using n True by (simp add: Let_def lex_all.simps [of filename l])
  qed (simp add: n lex_all.simps)
qed

lemma load_reader: "load input = Inr l \<Longrightarrow> length (reader l) \<le> length input"
  using length_chunks [of input] by (auto simp: load_def decode_runes_def split: list.splits if_splits)

lemma token_loop_ends:
  assumes "load input = Inr l"
  shows "\<exists>l' tokens. token_loop filename l = Some (False, l', tokens) \<and> allTokens filename input = Inr tokens \<and>
    length tokens \<le> length input"
  using while_tokens [of filename l "[]"] length_lex_all [of filename l] load_reader [OF assms] assms
  by (auto simp: token_loop_def allTokens_def)

end
