(* ===== verification/RoundTrip.thy ===== *)
theory RoundTrip
  imports Marshal Unmarshal
begin

text \<open>
  What is written can be read back: the tokenizer delivers the keys and braces of a written
  container line by line, and the parser rebuilds the container from them. The predicate
  \<open>wf_block\<close> says for which containers: the keys have to be of a kind the writer's quoting
  represents.
\<close>

section \<open>Writable keys\<close>

definition key_runes :: "rune list \<Rightarrow> rune list" where
  "key_runes ks =
     (if newline \<in> set ks \<or> dquote \<in> set ks then backtick # ks @ [backtick]
      else if 32 \<in> set ks then dquote # ks @ [dquote]
      else ks)"

definition wf_key :: "string \<Rightarrow> bool" where
  "wf_key k \<longleftrightarrow>
     valid_utf8 k \<and> k \<notin> {''{'', ''}''} \<and>
     (let ks = decode_runes k in
      if newline \<in> set ks \<or> dquote \<in> set ks then backtick \<notin> set ks
      else if 32 \<in> set ks then esc_closed ks
      else plain_key ks \<and> hd ks \<noteq> 65279)"

fun wf_block :: "block \<Rightarrow> bool" where
  "wf_block (Block ord ks cs) \<longleftrightarrow>
     (ks \<noteq> [] \<or> cs \<noteq> []) \<and> (\<forall>k \<in> set ks. wf_key k) \<and> (\<forall>c \<in> set cs. wf_block c)"

lemma ascii_decode [simp]:
  "(of_char c :: nat) < 128 \<Longrightarrow> valid_utf8 [c]" "(of_char c :: nat) < 128 \<Longrightarrow> decode_runes [c] = [of_char c]"
  using ascii_runes [of "[c]"] by simp_all

lemma decode_ascii_Cons [simp]: "(of_char c :: nat) < 128 \<Longrightarrow> decode_runes (c # s) = of_char c # decode_runes s"
  using decode_append [of "[c]" s] by simp

lemma valid_ascii_Cons [simp]: "(of_char c :: nat) < 128 \<Longrightarrow> valid_utf8 s \<Longrightarrow> valid_utf8 (c # s)"
  using valid_utf8_append [of "[c]" s] by simp

lemma valid_utf8_Nil [simp]: "valid_utf8 []"
  by (simp add: valid_utf8_def)

lemma valid_Repeat: "(of_char c :: nat) < 128 \<Longrightarrow> valid_utf8 (Repeat [c] n)"
  and decode_Repeat: "(of_char c :: nat) < 128 \<Longrightarrow> decode_runes (Repeat [c] n) = replicate n (of_char c)"
  using ascii_runes [of "Repeat [c] n"] by (simp_all add: Repeat_def)

lemma write_key_wf:
  assumes "wf_key k"
  shows "valid_utf8 (write_key k)" and "decode_runes (write_key k) = key_runes (decode_runes k)"
proof -
  have v: "valid_utf8 k" using assms by (simp add: wf_key_def)
  have any: "ContainsAny k [CHR 0x0A, CHR 0x22] \<longleftrightarrow> newline \<in> set (decode_runes k) \<or> dquote \<in> set (decode_runes k)"
    "ContainsAny k '' '' \<longleftrightarrow> 32 \<in> set (decode_runes k)"
    using mem_ascii [OF v, of "CHR 0x0A"] mem_ascii [OF v, of "CHR 0x22"] mem_ascii [OF v, of "CHR '' ''"]
    by (auto simp: ContainsAny_def list_ex_iff)
  have "backtick \<notin> set (decode_runes k) \<Longrightarrow> CHR ''`'' \<notin> set k" "dquote \<notin> set (decode_runes k) \<Longrightarrow> CHR 0x22 \<notin> set k"
    using mem_ascii [OF v, of "CHR ''`''"] mem_ascii [OF v, of "CHR 0x22"] by simp_all
  then have w: "write_key k =
      (if newline \<in> set (decode_runes k) \<or> dquote \<in> set (decode_runes k) then [CHR ''`''] @ k @ [CHR ''`'']
       else if 32 \<in> set (decode_runes k) then [CHR 0x22] @ k @ [CHR 0x22] else k)"
    using assms by (auto simp: write_key_def any ReplaceAll_absent wf_key_def Let_def split: if_splits)
  have q: "valid_utf8 ([c] @ k @ [c])" "decode_runes ([c] @ k @ [c]) = of_char c # decode_runes k @ [of_char c]"
    if "(of_char c :: nat) < 128" for c
  proof -
    have "valid_utf8 (k @ [c])" using v that by (intro valid_utf8_append) simp_all
    then show "valid_utf8 ([c] @ k @ [c])" using that by (intro valid_utf8_append [of "[c]"]) simp_all
    show "decode_runes ([c] @ k @ [c]) = of_char c # decode_runes k @ [of_char c]"
      using decode_append [of "[c]" "k @ [c]"] decode_append [OF v, of "[c]"] that by simp
  qed
  show "valid_utf8 (write_key k)" using w v q(1) [of "CHR ''`''"] q(1) [of "CHR 0x22"] by simp
  show "decode_runes (write_key k) = key_runes (decode_runes k)"
    using w q(2) [of "CHR ''`''"] q(2) [of "CHR 0x22"] by (simp add: key_runes_def)
qed

section \<open>The tokens of a written container\<close>

definition nls :: "string \<Rightarrow> int" where
  "nls k = strings_Count k (CHR 0x0A)"

definition tok :: "string \<Rightarrow> int \<Rightarrow> string \<Rightarrow> token" where
  "tok f ln k = \<lparr>File = f, Line = ln, Text = k\<rparr>"

fun keys_lines :: "string list \<Rightarrow> int" where
  "keys_lines [] = 0"
| "keys_lines (k # ks) = nls k + keys_lines ks"

fun keys_tokens :: "string \<Rightarrow> int \<Rightarrow> string list \<Rightarrow> token list" where
  "keys_tokens f ln [] = []"
| "keys_tokens f ln (k # ks) = tok f ln k # keys_tokens f (ln + nls k) ks"

fun block_lines :: "block \<Rightarrow> int" and container_lines :: "container \<Rightarrow> int" where
  "block_lines (Block ord ks cs) = keys_lines ks + (if cs = [] then 0 else 1 + container_lines cs) + 1"
| "container_lines [] = 0"
| "container_lines (b # bs) = block_lines b + container_lines bs"

fun block_tokens :: "string \<Rightarrow> int \<Rightarrow> block \<Rightarrow> token list"
  and container_tokens :: "string \<Rightarrow> int \<Rightarrow> container \<Rightarrow> token list" where
  "block_tokens f ln (Block ord ks cs) =
     keys_tokens f ln ks @
     (if cs = [] then []
      else tok f (ln + keys_lines ks) ''{'' # container_tokens f (ln + keys_lines ks + 1) cs @
           [tok f (ln + keys_lines ks + 1 + container_lines cs) ''}''])"
| "container_tokens f ln [] = []"
| "container_tokens f ln (b # bs) = block_tokens f ln b @ container_tokens f (ln + block_lines b) bs"

lemma lexes_key:
  assumes "wf_key k" and c: "c = 32 \<or> c = newline"
  shows "lexes f (key_runes (decode_runes k) @ c # rest) ln [tok f ln k] (c # rest) (ln + nls k)"
proof -
  let ?ks = "decode_runes k"
  have v: "valid_utf8 k" using assms by (simp add: wf_key_def)
  have n: "nls k = newlines ?ks"
    using count_ascii [OF v, of "CHR 0x0A"] by (simp add: nls_def newlines_def strings_Count_def)
  have t: "tok f ln k = key_token f ln ?ks" using v by (simp add: tok_def key_token_def)
  consider "newline \<in> set ?ks \<or> dquote \<in> set ?ks" | "newline \<notin> set ?ks" "dquote \<notin> set ?ks" "32 \<in> set ?ks"
    | "newline \<notin> set ?ks" "dquote \<notin> set ?ks" "32 \<notin> set ?ks" by blast
  then show ?thesis
  proof cases
    case 1
    then have "backtick \<notin> set ?ks" using assms(1) by (simp add: wf_key_def)
    from lexes_backtick [OF this] show ?thesis using 1 by (simp add: key_runes_def t n)
  next
    case 2
    then have "newlines ?ks = 0" by (simp add: newlines_def count_list_0_iff)
    moreover have "esc_closed ?ks" using 2 assms(1) by (simp add: wf_key_def)
    ultimately show ?thesis
      using 2 lexes_dquote [of ?ks f "c # rest" ln] by (auto simp: key_runes_def t n)
  next
    case 3
    then have "newlines ?ks = 0" by (simp add: newlines_def count_list_0_iff)
    moreover have "plain_key ?ks" using 3 assms(1) by (simp add: wf_key_def Let_def)
    ultimately show ?thesis
      using 3 lexes_plain [OF _ c, of ?ks f rest ln] by (simp add: key_runes_def t n)
  qed
qed

lemma write_keys_lexes:
  assumes "\<forall>k \<in> set ks. wf_key k"
  shows "valid_utf8 (write_keys ks need)"
    and "c = 32 \<or> c = newline \<Longrightarrow>
      lexes f (decode_runes (write_keys ks need) @ c # rest) ln (keys_tokens f ln ks) (c # rest) (ln + keys_lines ks)"
  using assms
proof (induction ks arbitrary: need ln)
  case Nil
  case 1
  show ?case by simp
  case 2
  show ?case by (simp add: lexes_refl)
next
  case (Cons k ks)
  let ?w = "if need then '' '' else []"
  have w: "valid_utf8 ?w" "decode_runes ?w = (if need then [32] else [])" by simp_all
  case 1
  have k: "wf_key k" and ks: "\<forall>k \<in> set ks. wf_key k" using 1 by simp_all
  note vk = write_key_wf [OF k] and vks = Cons.IH(1) [OF ks]
  show ?case unfolding write_keys.simps
    by (intro valid_utf8_append vk(1) vks) (simp split: if_split)
  case 2
  let ?rest = "decode_runes (write_keys ks True) @ c # rest"
  have d: "decode_runes (write_keys (k # ks) need) @ c # rest =
      (if need then [32] else []) @ key_runes (decode_runes k) @ ?rest"
    by (simp add: decode_append [OF vk(1)] vk(2))
  obtain c' rest' where c': "?rest = c' # rest'" "c' = 32 \<or> c' = newline"
  proof (cases ks)
    case Nil
    then show ?thesis using that 2(1) by simp
  next
    case (Cons k' ks')
    then show ?thesis using that decode_append [of "'' ''" "write_key k' @ write_keys ks' True"] by simp
  qed
  have skip: "lexes f ((if need then [32] else []) @ xs) ln [] xs ln" for xs
    by (simp add: lexes_refl lexes_blank)
  have "lexes f (decode_runes (write_keys (k # ks) need) @ c # rest) ln
      ([] @ [tok f ln k] @ keys_tokens f (ln + nls k) ks) (c # rest) (ln + nls k + keys_lines ks)"
    unfolding d
    using skip lexes_key [OF k c'(2), of f rest' ln, folded c'(1)] Cons.IH(2) [OF 2(1) ks]
    by (intro lexes_trans)
  then show ?case by (simp add: add.assoc)
qed

lemma lexes_tabs: "lexes f (replicate n 9 @ rest) ln [] rest ln"
proof (induction n)
  case (Suc n)
  then show ?case using lexes_trans [OF lexes_tab Suc] by simp
qed (simp add: lexes_refl)

lemma brace_chars: "char_of (123 :: nat) = CHR ''{''" "char_of (125 :: nat) = CHR ''}''"
  using char_of_char [of "CHR ''{''", where ?'a = nat] char_of_char [of "CHR ''}''", where ?'a = nat] by simp_all

lemma lexes_brace:
  "c = 32 \<or> c = newline \<Longrightarrow> lexes f (123 # c # rest) ln [tok f ln ''{''] (c # rest) ln"
  "c = 32 \<or> c = newline \<Longrightarrow> lexes f (125 # c # rest) ln [tok f ln ''}''] (c # rest) ln"
  using lexes_plain [of "[123]" c f rest ln] lexes_plain [of "[125]" c f rest ln] brace_chars
  by (simp_all add: plain_key_def IsSpace_def key_token_def tok_def encode_rune_ascii)

lemma lexes_keys:
  assumes "\<forall>k \<in> set ks. wf_key k" and "ks = [] \<or> c = 32 \<or> c = newline"
  shows "lexes f (decode_runes (write_keys ks False) @ c # rest) ln (keys_tokens f ln ks) (c # rest) (ln + keys_lines ks)"
  using assms write_keys_lexes(2) by (cases "ks = []") (auto simp: lexes_refl)

text \<open>The runes of a written block, and the tokens read from them.\<close>

lemma decode_write_block:
  assumes ks: "\<forall>k \<in> set ks. wf_key k" and cs: "valid_utf8 (write_container cs (lev + 1))"
  shows "valid_utf8 (write_block (Block ord ks cs) lev)"
    and "decode_runes (write_block (Block ord ks cs) lev) =
      replicate lev 9 @ decode_runes (write_keys ks False) @
      (if cs = [] then []
       else (if ks = [] then [] else [32]) @ 123 # newline # decode_runes (write_container cs (lev + 1)) @
            replicate lev 9 @ [125]) @ [newline]"
proof -
  have tabs: "valid_utf8 (Repeat [CHR 0x09] lev)" "decode_runes (Repeat [CHR 0x09] lev) = replicate lev 9"
    using valid_Repeat [of "CHR 0x09" lev] decode_Repeat [of "CHR 0x09" lev] by simp_all
  have open_: "valid_utf8 [CHR ''{'', CHR 0x0A]" "decode_runes [CHR ''{'', CHR 0x0A] = [123, newline]"
    using ascii_runes [of "[CHR ''{'', CHR 0x0A]"] by simp_all
  have sep: "valid_utf8 (if ks \<noteq> [] then '' '' else [])"
    "decode_runes (if ks \<noteq> [] then '' '' else []) = (if ks = [] then [] else [32])" by simp_all
  note keys = write_keys_lexes(1) [OF ks, of False]
  define body where "body = (if length cs > 0
      then (if ks \<noteq> [] then '' '' else []) @ [CHR ''{'', CHR 0x0A] @
           write_container cs (lev + 1) @ Repeat [CHR 0x09] lev @ ''}'' else [])"
  have body: "valid_utf8 body" unfolding body_def
    using valid_utf8_append [OF sep(1) valid_utf8_append [OF open_(1) valid_utf8_append [OF cs
          valid_utf8_append [OF tabs(1), of "''}''"]]]] by simp
  have dbody: "decode_runes body = (if cs = [] then []
       else (if ks = [] then [] else [32]) @ 123 # newline # decode_runes (write_container cs (lev + 1)) @
            replicate lev 9 @ [125])" unfolding body_def
    using cs by (simp add: decode_append decode_append [OF tabs(1)] tabs(2))
  have w: "write_block (Block ord ks cs) lev = Repeat [CHR 0x09] lev @ write_keys ks False @ body @ [CHR 0x0A]"
    unfolding body_def by simp
  show "valid_utf8 (write_block (Block ord ks cs) lev)" unfolding w
    by (intro valid_utf8_append tabs keys body) simp
  show "decode_runes (write_block (Block ord ks cs) lev) =
      replicate lev 9 @ decode_runes (write_keys ks False) @
      (if cs = [] then []
       else (if ks = [] then [] else [32]) @ 123 # newline # decode_runes (write_container cs (lev + 1)) @
            replicate lev 9 @ [125]) @ [newline]"
    unfolding w decode_append [OF tabs(1)] decode_append [OF keys] decode_append [OF body] tabs(2) dbody by simp
qed

lemma block_lexes:
  assumes ks: "\<forall>k \<in> set ks. wf_key k" and v: "valid_utf8 (write_container cs (lev + 1))"
    and cs: "\<And>ln rest. lexes f (decode_runes (write_container cs (lev + 1)) @ rest) ln (container_tokens f ln cs) rest
      (ln + container_lines cs)"
  shows "lexes f (decode_runes (write_block (Block ord ks cs) lev) @ rest) ln
    (block_tokens f ln (Block ord ks cs)) rest (ln + block_lines (Block ord ks cs))"
proof (cases "cs = []")
  case True
  have "lexes f (replicate lev 9 @ decode_runes (write_keys ks False) @ newline # rest) ln
      ([] @ keys_tokens f ln ks @ []) rest (ln + keys_lines ks + 1)"
    by (rule lexes_trans [OF lexes_tabs lexes_trans [OF lexes_keys [OF ks] lexes_newline]]) simp
  then show ?thesis using True unfolding decode_write_block(2) [OF ks v] by (simp add: add.assoc)
next
  case False
  let ?k = "ln + keys_lines ks" and ?cl = "container_lines cs"
  let ?close = "replicate lev 9 @ 125 # newline # rest"
  let ?open = "123 # newline # decode_runes (write_container cs (lev + 1)) @ ?close"
  have close: "lexes f ?close l ([] @ [tok f l ''}''] @ []) rest (l + 1)" for l
    by (rule lexes_trans [OF lexes_tabs lexes_trans [OF lexes_brace(2) lexes_newline]]) simp
  have op: "lexes f ?open ?k ([tok f ?k ''{''] @ [] @ container_tokens f (?k + 1) cs @
      [] @ [tok f (?k + 1 + ?cl) ''}''] @ []) rest (?k + 1 + ?cl + 1)"
    by (rule lexes_trans [OF lexes_brace(1) lexes_trans [OF lexes_newline lexes_trans [OF cs close]]]) simp
  have sep: "lexes f ((if ks = [] then [] else [32]) @ ?open) l [] ?open l" for l
    by (simp add: lexes_refl lexes_blank)
  have keys: "lexes f (decode_runes (write_keys ks False) @ (if ks = [] then [] else [32]) @ ?open) ln
      (keys_tokens f ln ks) ((if ks = [] then [] else [32]) @ ?open) ?k"
    using lexes_keys [OF ks, of 32 f ?open ln] lexes_keys [OF ks, of 123 f "tl ?open" ln] by auto
  from lexes_trans [OF lexes_tabs lexes_trans [OF keys lexes_trans [OF sep op]]]
  show ?thesis using False unfolding decode_write_block(2) [OF ks v] by (simp add: algebra_simps)
qed

lemma write_lexes:
  "wf_block b \<Longrightarrow> valid_utf8 (write_block b lev) \<and>
     (\<forall>ln rest. lexes f (decode_runes (write_block b lev) @ rest) ln (block_tokens f ln b) rest (ln + block_lines b))"
  "\<forall>b \<in> set cs. wf_block b \<Longrightarrow> valid_utf8 (write_container cs lev) \<and>
     (\<forall>ln rest. lexes f (decode_runes (write_container cs lev) @ rest) ln (container_tokens f ln cs) rest
        (ln + container_lines cs))"
proof (induction b lev and cs lev rule: write_block_write_container.induct)
  case (1 ord ks cs lev)
  have ks: "\<forall>k \<in> set ks. wf_key k" and wf: "\<forall>c \<in> set cs. wf_block c" using "1.prems" by auto
  have "valid_utf8 (write_container cs (lev + 1)) \<and>
      (\<forall>ln rest. lexes f (decode_runes (write_container cs (lev + 1)) @ rest) ln (container_tokens f ln cs) rest
        (ln + container_lines cs))"
    using "1.IH" wf by (cases cs) (simp_all add: lexes_refl)
  then show ?case using decode_write_block(1) [OF ks] block_lexes [OF ks] by blast
next
  case (2 lev)
  then show ?case by (simp add: lexes_refl)
next
  case (3 b bs lev)
  then have b: "valid_utf8 (write_block b lev)"
      "\<And>ln rest. lexes f (decode_runes (write_block b lev) @ rest) ln (block_tokens f ln b) rest (ln + block_lines b)"
    and bs: "valid_utf8 (write_container bs lev)"
      "\<And>ln rest. lexes f (decode_runes (write_container bs lev) @ rest) ln (container_tokens f ln bs) rest (ln + container_lines bs)"
    by simp_all
  have "lexes f (decode_runes (write_container (b # bs) lev) @ rest) ln (container_tokens f ln (b # bs)) rest
      (ln + container_lines (b # bs))" for ln rest
    using lexes_trans [OF b(2) [of "decode_runes (write_container bs lev) @ rest" ln] bs(2) [of rest]]
    by (simp add: decode_append [OF b(1)] add.assoc)
  then show ?case using valid_utf8_append [OF b(1) bs(1)] by simp
qed

section \<open>The tree the parser builds\<close>

text \<open>The parser numbers the children of each container from 0.\<close>

fun renumber :: "int \<Rightarrow> block \<Rightarrow> block" and renumber_all :: "int \<Rightarrow> container \<Rightarrow> container" where
  "renumber n (Block ord ks cs) = Block n ks (renumber_all 0 cs)"
| "renumber_all n [] = []"
| "renumber_all n (b # bs) = renumber n b # renumber_all (n + 1) bs"

lemma parse_first_token:
  assumes "tokenLine s < Line t" "tokenLine s = -1 \<longrightarrow> isNewBlock s" "Text t \<noteq> ''}''"
    and cs: "container_at (rootContainer s) (last (stack s)) = Some ds"
  shows "parse_tokens (t # ts) s = parse_tokens (t # ts)
    (s\<lparr>rootContainer := update_container (\<lambda>ds. ds @ [Block (int (length ds)) [] []]) (last (stack s)) (rootContainer s),
       currentBlock := Some (last (stack s) @ [length ds]), isNewBlock := False, tokenLine := Line t\<rparr>)"
proof -
  have "update_container (AddBlock (Block (int (length ds)) [] [])) (last (stack s)) (rootContainer s) =
      update_container (\<lambda>ds. ds @ [Block (int (length ds)) [] []]) (last (stack s)) (rootContainer s)"
    by (rule update_container_cong [OF cs]) (simp add: AddBlock_def)
  then have "open_block (note_line t s) =
      s\<lparr>rootContainer := update_container (\<lambda>ds. ds @ [Block (int (length ds)) [] []]) (last (stack s)) (rootContainer s),
        currentBlock := Some (last (stack s) @ [length ds]), isNewBlock := False, tokenLine := Line t\<rparr>"
    using assms by (cases s) (auto simp: open_block_def note_line_def Let_def AddBlockAt_def CreateContainer_def)
  moreover have "parse_token t s = parse_token t (open_block (note_line t s))"
    using assms(3) by (simp add: parse_token_def Let_def open_block_def note_line_def)
  ultimately show ?thesis by simp
qed

lemma parse_key:
  assumes "tokenLine s = ln" "\<not> isNewBlock s" "currentBlock s = Some cur" "wf_key k"
  shows "parse_token (tok f ln k) s =
    Inr (s\<lparr>rootContainer := AddKeysAt cur [k] (rootContainer s), tokenLine := ln + nls k\<rparr>)"
  using assms by (auto simp: parse_token_def tok_def note_line_def open_block_def Let_def wf_key_def nls_def)

lemma parse_keys:
  assumes "tokenLine s = ln" "\<not> isNewBlock s" "currentBlock s = Some (u @ [length ds])" "\<forall>k \<in> set ks. wf_key k"
    and "container_at r u = Some ds" "rootContainer s = update_container (\<lambda>ds. ds @ [Block o' js c]) u r"
  shows "parse_tokens (keys_tokens f ln ks) s =
    Inr (s\<lparr>rootContainer := update_container (\<lambda>ds. ds @ [Block o' (js @ ks) c]) u r, tokenLine := ln + keys_lines ks\<rparr>)"
  using assms
proof (induction ks arbitrary: s ln js)
  case Nil
  then show ?case by simp
next
  case (Cons k ks)
  have p: "parse_token (tok f ln k) s =
      Inr (s\<lparr>rootContainer := update_container (\<lambda>ds. ds @ [Block o' (js @ [k]) c]) u r, tokenLine := ln + nls k\<rparr>)"
    using parse_key [OF Cons.prems(1-3)] Cons.prems(4-6) AddKeysAt_appended [OF Cons.prems(5) refl] by simp
  show ?case using Cons.prems by (simp add: p Cons.IH [where js = "js @ [k]"] add.assoc)
qed

lemma lines_nonneg: "0 \<le> keys_lines ks" "0 \<le> block_lines b" "0 \<le> container_lines cs"
proof -
  show k: "0 \<le> keys_lines ks" for ks by (induction ks) (simp_all add: nls_def strings_Count_def)
  show "0 \<le> block_lines b" "0 \<le> container_lines cs"
    by (induction b and cs rule: block_lines_container_lines.induct) (simp_all add: k)
qed

text \<open>
  From a state in which line \<open>ln\<close> starts a block, the tokens of a block append it, renumbered, to
  the container on top of the stack.
\<close>

definition starts_line :: "parse_state \<Rightarrow> int \<Rightarrow> bool" where
  "starts_line s ln \<longleftrightarrow> tokenLine s < ln \<and> (tokenLine s = -1 \<longrightarrow> isNewBlock s) \<and> stack s \<noteq> []"

definition parses_to :: "parse_state \<Rightarrow> token list \<Rightarrow> int \<Rightarrow> container \<Rightarrow> bool" where
  "parses_to s ts ln root \<longleftrightarrow>
     (\<exists>s'. parse_tokens ts s = Inr s' \<and> starts_line s' ln \<and> stack s' = stack s \<and> rootContainer s' = root)"

text \<open>The keys of a block that starts on this line, and its children between braces.\<close>

lemma parse_head:
  assumes "starts_line s ln" and ds: "container_at (rootContainer s) (last (stack s)) = Some ds"
    and ks: "\<forall>k \<in> set ks. wf_key k" and "ks = [] \<longrightarrow> (\<exists>us. ts = tok f ln ''{'' # us)"
  shows "parse_tokens (keys_tokens f ln ks @ ts) s = parse_tokens ts
    (s\<lparr>rootContainer := update_container (\<lambda>es. es @ [Block (int (length ds)) ks []]) (last (stack s)) (rootContainer s),
       currentBlock := Some (last (stack s) @ [length ds]), isNewBlock := False, tokenLine := ln + keys_lines ks\<rparr>)"
proof -
  define s1 where "s1 = s\<lparr>rootContainer := update_container (\<lambda>es. es @ [Block (int (length ds)) [] []]) (last (stack s)) (rootContainer s),
    currentBlock := Some (last (stack s) @ [length ds]), isNewBlock := False, tokenLine := ln\<rparr>"
  obtain t us where t: "keys_tokens f ln ks @ ts = t # us" "Line t = ln" "Text t \<noteq> ''}''"
    using assms(3,4) by (cases ks) (auto simp: tok_def wf_key_def)
  have "update_container (\<lambda>ds. ds @ [Block (int (length ds)) [] []]) (last (stack s)) (rootContainer s) = rootContainer s1"
    unfolding s1_def by simp (rule update_container_cong [OF ds], simp)
  then have "parse_tokens (keys_tokens f ln ks @ ts) s = parse_tokens (keys_tokens f ln ks @ ts) s1"
    using parse_first_token [of s t ds us] assms(1) ds t unfolding starts_line_def by (simp add: s1_def)
  moreover have "parse_tokens (keys_tokens f ln ks) s1 =
      Inr (s1\<lparr>rootContainer := update_container (\<lambda>es. es @ [Block (int (length ds)) ks []]) (last (stack s)) (rootContainer s),
        tokenLine := ln + keys_lines ks\<rparr>)"
    using parse_keys [OF _ _ _ ks ds, of s1 ln "int (length ds)" "[]" "[]" f] by (simp add: s1_def)
  ultimately show ?thesis by (cases s) (simp add: parse_tokens_append s1_def)
qed

lemma parse_braces:
  assumes s: "currentBlock s = Some (last (stack s) @ [length ds])" "\<not> isNewBlock s" "tokenLine s = ln" "stack s \<noteq> []" "1 \<le> ln"
    and r: "container_at r (last (stack s)) = Some ds"
      "rootContainer s = update_container (\<lambda>es. es @ [Block n ks []]) (last (stack s)) r"
    and cs: "\<And>s'. starts_line s' (ln + 1) \<Longrightarrow> container_at (rootContainer s') (last (stack s')) = Some [] \<Longrightarrow>
      parses_to s' (container_tokens f (ln + 1) cs) (ln + 1 + container_lines cs)
        (update_container (\<lambda>ds. ds @ renumber_all (int (length ds)) cs) (last (stack s')) (rootContainer s'))"
  shows "parses_to s (tok f ln ''{'' # container_tokens f (ln + 1) cs @ [tok f (ln + 1 + container_lines cs) ''}''])
    (ln + 1 + container_lines cs + 1)
    (update_container (\<lambda>es. es @ [Block n ks (renumber_all 0 cs)]) (last (stack s)) r)"
proof -
  define s3 where "s3 = s\<lparr>stack := stack s @ [last (stack s) @ [length ds]]\<rparr>"
  have op: "parse_token (tok f ln ''{'') s = Inr s3"
    using s by (simp add: parse_token_def tok_def note_line_def open_block_def Let_def s3_def)
  have "container_at (rootContainer s3) (last (stack s3)) = Some []"
    using container_at_appended [OF r(1) refl] by (simp add: s3_def r(2))
  moreover have "starts_line s3 (ln + 1)" using s by (simp add: s3_def starts_line_def)
  ultimately obtain s4 where s4: "parse_tokens (container_tokens f (ln + 1) cs) s3 = Inr s4"
      "starts_line s4 (ln + 1 + container_lines cs)" "stack s4 = stack s3"
      "rootContainer s4 = update_container (\<lambda>ds. ds @ renumber_all (int (length ds)) cs) (last (stack s3)) (rootContainer s3)"
    using cs [of s3] unfolding parses_to_def by blast
  have root: "rootContainer s4 = update_container (\<lambda>es. es @ [Block n ks (renumber_all 0 cs)]) (last (stack s)) r"
    unfolding s4(4) using update_appended_children [OF r(1) refl] by (simp add: s3_def r(2))
  define s5 where "s5 = (note_line (tok f (ln + 1 + container_lines cs) ''}'') s4)\<lparr>stack := stack s\<rparr>"
  have "parse_token (tok f (ln + 1 + container_lines cs) ''}'') s4 = Inr s5"
    using s4(3) s(4) by (simp add: parse_token_def Let_def s5_def s3_def tok_def note_line_def)
  then have "parse_tokens (tok f ln ''{'' # container_tokens f (ln + 1) cs @ [tok f (ln + 1 + container_lines cs) ''}'']) s = Inr s5"
    using op s4(1) by (simp add: parse_tokens_append)
  moreover have "starts_line s5 (ln + 1 + container_lines cs + 1)" "stack s5 = stack s" "rootContainer s5 = rootContainer s4"
    using s4(2) s(4) by (auto simp: s5_def note_line_def tok_def starts_line_def)
  ultimately show ?thesis unfolding parses_to_def using root by auto
qed

lemma parse_block_tokens:
  "\<lbrakk>wf_block b; starts_line s ln; 1 \<le> ln; container_at (rootContainer s) (last (stack s)) = Some ds\<rbrakk> \<Longrightarrow>
     parses_to s (block_tokens f ln b) (ln + block_lines b)
       (update_container (\<lambda>ds. ds @ [renumber (int (length ds)) b]) (last (stack s)) (rootContainer s))"
  "\<lbrakk>\<forall>b \<in> set cs. wf_block b; starts_line s ln; 1 \<le> ln; container_at (rootContainer s) (last (stack s)) = Some ds\<rbrakk> \<Longrightarrow>
     parses_to s (container_tokens f ln cs) (ln + container_lines cs)
       (update_container (\<lambda>ds. ds @ renumber_all (int (length ds)) cs) (last (stack s)) (rootContainer s))"
proof (induction f ln b and f ln cs arbitrary: s ds and s ds rule: block_tokens_container_tokens.induct)
  case (1 f ln ord ks cs)
  let ?u = "last (stack s)" and ?k = "ln + keys_lines ks"
  let ?app = "\<lambda>c. update_container (\<lambda>es. es @ [Block (int (length ds)) ks c]) ?u (rootContainer s)"
  let ?ts = "if cs = [] then [] else tok f ?k ''{'' # container_tokens f (?k + 1) cs @ [tok f (?k + 1 + container_lines cs) ''}'']"
  let ?s = "s\<lparr>rootContainer := ?app [], currentBlock := Some (?u @ [length ds]), isNewBlock := False, tokenLine := ?k\<rparr>"
  have head: "parse_tokens (block_tokens f ln (Block ord ks cs)) s = parse_tokens ?ts ?s"
    using parse_head [OF "1.prems"(2,4), of ks ?ts f] "1.prems"(1) by auto
  have app: "update_container (\<lambda>ds. ds @ [renumber (int (length ds)) (Block ord ks cs)]) ?u (rootContainer s) = ?app (renumber_all 0 cs)"
    by (rule update_container_cong [OF "1.prems"(4)]) simp
  have k: "1 \<le> ?k" "stack s \<noteq> []" using "1.prems"(2,3) lines_nonneg(1) [of ks] by (simp_all add: starts_line_def)
  have "parses_to ?s ?ts (ln + block_lines (Block ord ks cs)) (?app (renumber_all 0 cs))"
  proof (cases "cs = []")
    case True
    then show ?thesis using k by (simp add: parses_to_def starts_line_def)
  next
    case False
    have wf: "\<forall>c \<in> set cs. wf_block c" using "1.prems"(1) by simp
    show ?thesis
      using parse_braces [of ?s ds ?k "rootContainer s" "int (length ds)" ks f cs] "1.IH" [OF False wf] k "1.prems"(4) False
      by (simp add: add.assoc)
  qed
  then show ?case unfolding parses_to_def head app by simp
next
  case (2 f ln)
  then show ?case by (simp add: parses_to_def update_container_id)
next
  case (3 f ln b bs)
  obtain s1 where s1: "parse_tokens (block_tokens f ln b) s = Inr s1" "starts_line s1 (ln + block_lines b)"
      "stack s1 = stack s" "rootContainer s1 =
         update_container (\<lambda>ds. ds @ [renumber (int (length ds)) b]) (last (stack s)) (rootContainer s)"
    using "3.IH"(1) [OF _ "3.prems"(2-4)] "3.prems"(1) by (auto simp: parses_to_def)
  have "container_at (rootContainer s1) (last (stack s1)) = Some (ds @ [renumber (int (length ds)) b])"
    using container_at_update_same [OF "3.prems"(4)] s1(3,4) by simp
  from "3.IH"(2) [OF _ s1(2) _ this] show ?case
    using "3.prems"(1,3) lines_nonneg(2) [of b] s1
    by (auto simp: parses_to_def parse_tokens_append update_container_compose add.assoc add.commute [of 1])
qed

section \<open>Reading back what was written\<close>

lemma first_rune:
  assumes "wf_block b"
  shows "\<exists>c rs. decode_runes (write_block b 0) = c # rs \<and> c \<noteq> 65279"
proof (cases b)
  case (Block ord ks cs)
  have ks: "\<forall>k \<in> set ks. wf_key k" and cs: "\<forall>c \<in> set cs. wf_block c" and ne: "ks \<noteq> [] \<or> cs \<noteq> []"
    using assms Block by auto
  note d = decode_write_block(2) [OF ks conjunct1 [OF write_lexes(2) [OF cs]], of ord 0]
  show ?thesis
  proof (cases ks)
    case Nil
    then show ?thesis using ne d Block by simp
  next
    case (Cons k ks')
    then have k: "wf_key k" using ks by simp
    have "key_runes (decode_runes k) \<noteq> [] \<and> hd (key_runes (decode_runes k)) \<noteq> 65279"
      using k by (auto simp: key_runes_def wf_key_def Let_def plain_key_def)
    then show ?thesis
      using d Block Cons write_key_wf [OF k] by (auto simp: decode_append neq_Nil_conv)
  qed
qed

lemma allTokens_write:
  assumes "cs \<noteq> []" and "\<forall>b \<in> set cs. wf_block b"
  shows "allTokens f (write_container cs 0) = Inr (container_tokens f 1 cs)"
proof -
  obtain b bs where cs: "cs = b # bs" using assms(1) by (cases cs) auto
  have b: "wf_block b" using assms(2) cs by simp
  obtain c rs where c: "decode_runes (write_block b 0) = c # rs" "c \<noteq> 65279"
    using first_rune [OF b] by blast
  then have d: "decode_runes (write_container cs 0) = c # rs @ decode_runes (write_container bs 0)"
    using write_lexes(1) [OF b, of 0] by (simp add: cs decode_append)
  have "lexes f (decode_runes (write_container cs 0)) 1 (container_tokens f 1 cs) [] (1 + container_lines cs)"
    using write_lexes(2) [OF assms(2), of 0 f] by (metis append_Nil2)
  from lexes_end [OF this] show ?thesis
    using c(2) by (simp add: allTokens_def load_def d at_start_def)
qed

lemma Unmarshal_write:
  assumes "cs \<noteq> []" and "\<forall>b \<in> set cs. wf_block b"
  shows "Unmarshal (write_container cs 0) = Inr (renumber_all 0 cs)"
proof -
  have "\<exists>s'. parse_tokens (container_tokens [] 1 cs) init_state = Inr s' \<and> rootContainer s' = renumber_all 0 cs"
    using parse_block_tokens(2) [OF assms(2), of init_state 1 "[]" "[]"]
    by (auto simp: parses_to_def init_state_def starts_line_def CreateContainer_def)
  then show ?thesis
    using allTokens_write [OF assms, of "[]"] by (auto simp: Unmarshal_def parseContainer_def)
qed

text \<open>Renumbering is invisible in the text, and keeps a sorted container sorted.\<close>

lemma length_renumber_all [simp]: "length (renumber_all n cs) = length cs"
  by (induction cs arbitrary: n) simp_all

lemma renumber_all_Nil_iff [simp]: "renumber_all n cs = [] \<longleftrightarrow> cs = []"
  by (cases cs) simp_all

lemma renumber_sel [simp]: "Order (renumber n b) = n" "Keys (renumber n b) = Keys b"
  "Children (renumber n b) = renumber_all 0 (Children b)"
  by (cases b; simp)+

lemma write_renumber:
  "write_block (renumber n b) lev = write_block b lev"
  "write_container (renumber_all n cs) lev = write_container cs lev"
  by (induction n b and n cs arbitrary: lev and lev rule: renumber_renumber_all.induct) simp_all

lemma renumber_all_set: "c \<in> set (renumber_all n cs) \<Longrightarrow> \<exists>b \<in> set cs. \<exists>m \<ge> n. c = renumber m b"
proof (induction cs arbitrary: n)
  case (Cons b cs)
  show ?case
  proof (cases "c = renumber n b")
    case False
    then obtain b' m where "b' \<in> set cs" "n + 1 \<le> m" "c = renumber m b'" using Cons by force
    then show ?thesis by (intro bexI [of _ b'] exI [of _ m]) auto
  qed auto
qed simp

lemma rank_renumber [simp]: "rank (renumber n b) = rank b"
  by (simp add: rank_def IsGlobalBlock_def IsSnippet_def IsMatcher_def)

lemma rank_order_le: "rank a \<le> rank b \<Longrightarrow> Order a < Order b \<Longrightarrow> a \<le> b"
  using snippet_not_matcher [of a] snippet_not_matcher [of b]
  unfolding less_eq_block_def
  by (subst compare_blocks_chain)
    (auto simp: rank_def first_of_def cmp_of_def IsGlobalBlock_def IsSnippet_def IsMatcher_def split: if_splits)

lemma sorted_renumber_all: "sorted cs \<Longrightarrow> sorted (renumber_all n cs)"
proof (induction cs arbitrary: n)
  case (Cons b cs)
  have "renumber n b \<le> c" if "c \<in> set (renumber_all (n + 1) cs)" for c
  proof -
    obtain b' m where "b' \<in> set cs" "n + 1 \<le> m" "c = renumber m b'"
      using renumber_all_set [OF \<open>c \<in> set (renumber_all (n + 1) cs)\<close>] by blast
    then show ?thesis using Cons.prems rank_mono [of b b'] by (intro rank_order_le) auto
  qed
  then show ?case using Cons by simp
qed simp

lemma sorted_container_renumber: "sorted_container cs \<Longrightarrow> sorted_container (renumber_all n cs)"
proof (induction cs arbitrary: n rule: sorted_container.induct)
  case (1 cs)
  have "sorted cs" and sub: "\<forall>b \<in> set cs. sorted_container (Children b)"
    using 1(2) unfolding sorted_container.simps [of cs] by auto
  moreover have "sorted_container (Children c)" if "c \<in> set (renumber_all n cs)" for c
    using renumber_all_set [OF that] 1(1) sub by auto
  ultimately show ?case unfolding sorted_container.simps [of "renumber_all n cs"]
    by (simp add: sorted_renumber_all)
qed

lemma wf_block_iff:
  "wf_block b \<longleftrightarrow> (Keys b \<noteq> [] \<or> Children b \<noteq> []) \<and> (\<forall>k \<in> set (Keys b). wf_key k) \<and> (\<forall>c \<in> set (Children b). wf_block c)"
  by (cases b) simp

lemma sort_container_eq_Nil [simp]: "sort_container cs = [] \<longleftrightarrow> cs = []"
  by (simp flip: length_0_conv)

lemma wf_sort_container: "\<forall>b \<in> set cs. wf_block b \<Longrightarrow> \<forall>b \<in> set (sort_container cs). wf_block b"
proof (induction cs rule: sort_container.induct)
  case (1 cs)
  show ?case
  proof
    fix c assume "c \<in> set (sort_container cs)"
    then obtain b where b: "b \<in> set cs" "c = sort_block b" by (auto simp: set_sort_container)
    moreover have "wf_block b" using 1(2) b(1) by blast
    ultimately show "wf_block c" using 1(1) [OF b(1)] unfolding wf_block_iff [of b] wf_block_iff [of c] by simp
  qed
qed

lemma Unmarshal_Marshal:
  assumes "cs \<noteq> []" and "\<forall>b \<in> set cs. wf_block b"
  shows "Unmarshal (MarshalContainer cs) = Inr (renumber_all 0 (sort_container cs))"
  unfolding MarshalContainer_def using assms
  by (intro Unmarshal_write wf_sort_container) simp_all

lemma Marshal_nonempty:
  assumes "cs \<noteq> []" and "\<forall>b \<in> set cs. wf_block b"
  shows "MarshalContainer cs \<noteq> []"
  using Unmarshal_Marshal [OF assms] by (auto simp: Unmarshal_def allTokens_def load_def)

lemma Marshal_renumber: "MarshalContainer (renumber_all n (sort_container cs)) = MarshalContainer cs"
  using Marshal_sorted [OF sorted_container_renumber [OF sorted_sort_container [of cs]], of n] write_renumber(2)
  by (simp add: MarshalContainer_def)

end
