(* ===== verification/Merge.thy ===== *)
theory Merge
  imports Block
begin

text \<open>
  Merging two containers (\<open>caddyfile/merge.go\<close>). The receiver is updated in place by the code; here
  the operation returns its new value. Blocks of the second container that find no partner are
  appended, and later blocks of the second container may merge into them.
\<close>

section \<open>Merge\<close>

definition isMatcher :: "string \<Rightarrow> bool" where
  "isMatcher value \<longleftrightarrow> value = ''*'' \<or> HasPrefix value ''/'' \<or> HasPrefix value ''@''"

definition getMatcher :: "block \<Rightarrow> string" where
  "getMatcher b = (if length (Keys b) \<le> 1 \<or> \<not> isMatcher (Keys b ! 1) then ''*'' else Keys b ! 1)"

fun blocksAreEqual_loop :: "string list \<Rightarrow> string list \<Rightarrow> bool" where
  "blocksAreEqual_loop (a # as) (b # bs) \<longleftrightarrow> a = b \<and> blocksAreEqual_loop as bs"
| "blocksAreEqual_loop _ _ \<longleftrightarrow> True"

definition blocksAreEqual :: "block \<Rightarrow> block \<Rightarrow> bool" where
  "blocksAreEqual blockA blockB \<longleftrightarrow>
     length (Keys blockA) = length (Keys blockB) \<and> blocksAreEqual_loop (Keys blockA) (Keys blockB)"

text \<open>The keys \<open>mergeReverseProxyLike\<close> adds: all but the first, and without a matcher in front.\<close>

fun proxy_keys :: "nat \<Rightarrow> string list \<Rightarrow> string list" where
  "proxy_keys index [] = []"
| "proxy_keys index (key # keys) =
     (if index > 0 \<or> \<not> isMatcher key then [key] else []) @ proxy_keys (index + 1) keys"

definition proxy_like :: "string \<Rightarrow> bool" where
  "proxy_like firstKey \<longleftrightarrow> firstKey = ''reverse_proxy'' \<or> firstKey = ''php_fastcgi''"

lemma size_Children_measure:
  "3 * size_list size (Children b) < 3 * size b - 2" "3 * size_list size (Children b) < 3 * size b - Suc 0"
  "3 * size_list size (Children b) \<noteq> 3 * size b - Suc 0"
  using size_Children [of b] by linarith+

text \<open>\<open>merge_block\<close> is the inner loop: the first block of the receiver that qualifies.\<close>

function Merge :: "container \<Rightarrow> container \<Rightarrow> container"
  and merge_block :: "container \<Rightarrow> block \<Rightarrow> container"
  and mergeReverseProxyLike :: "block \<Rightarrow> block \<Rightarrow> block" where
  "Merge containerA [] = containerA"
| "Merge containerA (blockB # bs) = Merge (merge_block containerA blockB) bs"
| "merge_block [] blockB = [blockB]"
| "merge_block (blockA # as) blockB =
     (if GetFirstKey blockA \<noteq> GetFirstKey blockB then blockA # merge_block as blockB
      else if proxy_like (GetFirstKey blockB) \<and> getMatcher blockA = getMatcher blockB
      then mergeReverseProxyLike blockA blockB # as
      else if blocksAreEqual blockA blockB
      then Block (Order blockA) (Keys blockA) (Merge (Children blockA) (Children blockB)) # as
      else blockA # merge_block as blockB)"
| "mergeReverseProxyLike blockA blockB =
     Block (Order blockA) (Keys blockA @ proxy_keys 0 (tl (Keys blockB)))
       (Merge (Children blockA) (Children blockB))"
  by pat_completeness auto
termination
  by (relation "measures [\<lambda>x. case x of Inl (as, bs) \<Rightarrow> 3 * size_list size bs
      | Inr (Inl (as, b)) \<Rightarrow> 3 * size b - 1 | Inr (Inr (a, b)) \<Rightarrow> 3 * size b - 2,
      \<lambda>x. case x of Inl (as, bs) \<Rightarrow> 0 | Inr (Inl (as, b)) \<Rightarrow> length as | Inr (Inr (a, b)) \<Rightarrow> 0]")
    (auto simp: size_Children_measure)

section \<open>What merging keeps\<close>

lemma blocksAreEqual_iff [simp]: "blocksAreEqual a b \<longleftrightarrow> Keys a = Keys b"
proof -
  have "length xs = length ys \<Longrightarrow> blocksAreEqual_loop xs ys \<longleftrightarrow> xs = ys" for xs ys
    by (induction xs ys rule: list_induct2) auto
  then show ?thesis by (auto simp: blocksAreEqual_def)
qed

lemma proxy_keys_Suc [simp]: "proxy_keys (Suc n) ks = ks"
  by (induction ks arbitrary: n) auto

lemma proxy_keys_eq: "proxy_keys 0 ks = (if ks \<noteq> [] \<and> isMatcher (hd ks) then tl ks else ks)"
  by (cases ks) auto

text \<open>The receiver's blocks stay where they are, keep their order, and only gain keys at the end
  and children (recursively) at the end.\<close>

inductive extends :: "block \<Rightarrow> block \<Rightarrow> bool" where
  "list_all2 extends as cs \<Longrightarrow> ks = [] \<longrightarrow> ks' = [] \<Longrightarrow>
   extends (Block ord ks as) (Block ord (ks @ ks') (cs @ ds))"
monos list_all2_mono

inductive_simps extends_simps: "extends (Block ord ks as) b"

lemma extends_refl [intro]: "extends b b"
proof (induction b)
  case (Block ord ks as)
  then have "list_all2 extends as as" by (simp add: list_all2_same)
  from extends.intros [OF this, of ks "[]" ord "[]"] show ?case by simp
qed

lemma extends_iff: "extends a b \<longleftrightarrow>
    Order a = Order b \<and> (\<exists>ks. Keys b = Keys a @ ks \<and> (Keys a = [] \<longrightarrow> ks = [])) \<and> (\<exists>cs ds. Children b = cs @ ds \<and> list_all2 extends (Children a) cs)"
  by (cases a; cases b) (auto simp: extends_simps)

lemma extends_trans: "extends a b \<Longrightarrow> extends b c \<Longrightarrow> extends a c"
proof (induction a arbitrary: b c)
  case (Block ord ks as)
  obtain cs ds where b: "Children b = cs @ ds" "list_all2 extends as cs"
    using Block.prems(1) by (auto simp: extends_iff)
  obtain es fs where c: "Children c = es @ fs" "list_all2 extends (cs @ ds) es"
    using Block.prems(2) b(1) by (auto simp: extends_iff)
  obtain es1 es2 where es: "es = es1 @ es2" "list_all2 extends cs es1"
    using c(2) by (auto simp: list_all2_append1)
  have "list_all2 extends as es1"
    using b(2) es(2) Block.IH by (auto simp: list_all2_conv_all_nth)
  then show ?case using Block.prems b c es by (auto simp: extends_iff)
qed

definition extends_all :: "container \<Rightarrow> container \<Rightarrow> bool" where
  "extends_all as cs \<longleftrightarrow> (\<exists>bs ds. cs = bs @ ds \<and> list_all2 extends as bs)"

lemma extends_all_refl: "extends_all as as"
  unfolding extends_all_def by (intro exI [of _ as] exI [of _ "[]"]) (auto simp: list_all2_same)

lemma extends_all_trans: "extends_all as bs \<Longrightarrow> extends_all bs cs \<Longrightarrow> extends_all as cs"
  using extends_trans [of "Block 0 [] as" "Block 0 [] bs" "Block 0 [] cs"]
  by (simp add: extends_iff extends_all_def)

lemma extends_all_Cons: "extends a b \<Longrightarrow> extends_all as bs \<Longrightarrow> extends_all (a # as) (b # bs)"
  unfolding extends_all_def by (metis append_Cons list_all2_Cons)

lemma Merge_extends:
  "extends_all as (Merge as bs)"
  "extends_all as (merge_block as b)"
  "Keys a \<noteq> [] \<Longrightarrow> extends a (mergeReverseProxyLike a b)"
proof (induction as bs and as b and a b rule: Merge_merge_block_mergeReverseProxyLike.induct)
  case (1 as)
  then show ?case by (simp add: extends_all_refl)
next
  case (2 as b bs)
  then show ?case using extends_all_trans by simp
next
  case (3 b)
  then show ?case by (simp add: extends_all_def)
next
  case (4 a as b)
  have "extends a (Block (Order a) (Keys a) (Merge (Children a) (Children b)))"
    if "extends_all (Children a) (Merge (Children a) (Children b))"
    using that by (simp add: extends_iff extends_all_def)
  moreover have "Keys a \<noteq> []" if "proxy_like (GetFirstKey a)"
    using that by (auto simp: proxy_like_def GetFirstKey_def)
  ultimately show ?case
    using 4 by (auto intro!: extends_all_Cons extends_all_refl)
next
  case (5 a b)
  then show ?case by (simp add: extends_iff extends_all_def)
qed

text \<open>Nothing of the second container is lost: each of its blocks is covered by a block of the
  result with the same first key, all its keys (but possibly the matcher that matches
  everything), and its children covered.\<close>

inductive covers :: "block \<Rightarrow> block \<Rightarrow> bool" where
  "GetFirstKey (Block o1 ks1 as) = GetFirstKey (Block o2 ks2 cs) \<Longrightarrow> set ks1 \<subseteq> insert ''*'' (set ks2) \<Longrightarrow>
   \<forall>a \<in> set as. \<exists>c \<in> set cs. covers a c \<Longrightarrow> covers (Block o1 ks1 as) (Block o2 ks2 cs)"

inductive_simps covers_simps: "covers (Block o1 ks1 as) b"

lemma covers_iff: "covers a b \<longleftrightarrow>
    GetFirstKey a = GetFirstKey b \<and> set (Keys a) \<subseteq> insert ''*'' (set (Keys b)) \<and>
    (\<forall>x \<in> set (Children a). \<exists>y \<in> set (Children b). covers x y)"
  by (cases a; cases b) (auto simp: covers_simps)

lemma covers_refl [intro]: "covers b b"
proof (induction b)
  case (Block ord ks as)
  then have "\<forall>a \<in> set as. \<exists>c \<in> set as. covers a c" by (intro ballI bexI) assumption+
  from covers.intros [OF refl subset_insertI this] show ?case .
qed

lemma covers_extends: "covers a b \<Longrightarrow> extends b c \<Longrightarrow> covers a c"
proof (induction a arbitrary: b c)
  case (Block ord ks as)
  have a: "GetFirstKey (Block ord ks as) = GetFirstKey b" "set ks \<subseteq> insert ''*'' (set (Keys b))"
    "\<And>x. x \<in> set as \<Longrightarrow> \<exists>y \<in> set (Children b). covers x y"
    using iffD1 [OF covers_iff Block.prems(1)] by auto
  obtain ks' where k: "Keys c = Keys b @ ks'" "Keys b = [] \<longrightarrow> ks' = []"
    using Block.prems(2) by (auto simp: extends_iff)
  obtain cs ds where c: "Children c = cs @ ds" "list_all2 extends (Children b) cs"
    using Block.prems(2) by (auto simp: extends_iff)
  have "\<exists>z \<in> set (Children c). covers x z" if x: "x \<in> set as" for x
  proof -
    obtain y where y: "y \<in> set (Children b)" "covers x y" using a(3) [OF x] by blast
    then obtain z where "z \<in> set cs" "extends y z"
      using c(2) by (metis in_set_conv_nth list_all2_conv_all_nth)
    then show ?thesis using Block.IH [OF x y(2)] c(1) by auto
  qed
  moreover have "GetFirstKey b = GetFirstKey c" using k by (auto simp: GetFirstKey_def nth_append)
  ultimately show ?case using a k by (subst covers_iff) auto
qed

lemma covers_extends_all:
  "\<exists>c \<in> set cs. covers b c \<Longrightarrow> extends_all cs ds \<Longrightarrow> \<exists>d \<in> set ds. covers b d"
proof -
  assume "\<exists>c \<in> set cs. covers b c" "extends_all cs ds"
  then obtain c es fs where c: "c \<in> set cs" "covers b c" and ds: "ds = es @ fs" "list_all2 extends cs es"
    unfolding extends_all_def by blast
  then obtain d where "d \<in> set es" "extends c d" by (metis in_set_conv_nth list_all2_conv_all_nth)
  then show "\<exists>d \<in> set ds. covers b d" using covers_extends [OF c(2)] ds by auto
qed

lemma proxy_merge_keys:
  assumes "getMatcher a = getMatcher b" "GetFirstKey a = GetFirstKey b" "Keys a \<noteq> []" "Keys b \<noteq> []"
  shows "set (Keys b) \<subseteq> insert ''*'' (set (Keys a @ proxy_keys 0 (tl (Keys b))))"
proof -
  obtain k as' bs' where k: "Keys a = k # as'" "Keys b = k # bs'"
    using assms(2-4) by (cases "Keys a"; cases "Keys b") (auto simp: GetFirstKey_def)
  show ?thesis
  proof (cases "bs' \<noteq> [] \<and> isMatcher (hd bs')")
    case True
    then have "getMatcher b = hd bs'" by (cases bs') (auto simp: getMatcher_def k)
    moreover have "getMatcher a \<in> insert ''*'' (set (Keys a))"
      by (auto simp: getMatcher_def)
    ultimately have "hd bs' \<in> insert ''*'' (set (Keys a))" using assms(1) by simp
    then show ?thesis using k True by (cases bs') (auto simp: proxy_keys_eq)
  next
    case False
    then show ?thesis using k by (auto simp: proxy_keys_eq)
  qed
qed

lemma Merge_covers:
  "\<forall>b \<in> set bs. \<exists>c \<in> set (Merge as bs). covers b c"
  "\<exists>c \<in> set (merge_block as b). covers b c"
  "GetFirstKey a = GetFirstKey b \<Longrightarrow> proxy_like (GetFirstKey b) \<Longrightarrow> getMatcher a = getMatcher b \<Longrightarrow>
     covers b (mergeReverseProxyLike a b)"
proof (induction as bs and as b and a b rule: Merge_merge_block_mergeReverseProxyLike.induct)
  case (1 as)
  then show ?case by simp
next
  case (2 as b bs)
  have "\<exists>c \<in> set (Merge (merge_block as b) bs). covers b c"
    using covers_extends_all [OF 2(1) Merge_extends(1)] .
  then show ?case using 2 by simp
next
  case (3 b)
  then show ?case by auto
next
  case (4 a as b)
  have "covers b (Block (Order a) (Keys a) (Merge (Children a) (Children b)))"
    if "Keys a = Keys b" "\<forall>x \<in> set (Children b). \<exists>y \<in> set (Merge (Children a) (Children b)). covers x y"
    using that by (subst covers_iff) (auto simp: GetFirstKey_def)
  with 4 show ?case by auto
next
  case (5 a b)
  have ne: "Keys a \<noteq> []" "Keys b \<noteq> []" using 5(2,3) by (auto simp: proxy_like_def GetFirstKey_def)
  then have "GetFirstKey b = GetFirstKey (mergeReverseProxyLike a b)"
    using 5(2) by (simp add: GetFirstKey_def nth_append)
  moreover have "set (Keys b) \<subseteq> insert ''*'' (set (Keys (mergeReverseProxyLike a b)))"
    using proxy_merge_keys [OF 5(4,2) ne] by simp
  moreover have "\<forall>x \<in> set (Children b). \<exists>y \<in> set (Children (mergeReverseProxyLike a b)). covers x y"
    using 5(1) by simp
  ultimately show ?case by (subst covers_iff) blast
qed

section \<open>Trees without repeated keys\<close>

text \<open>Sibling blocks have different keys, and none is merged in the manner of \<open>reverse_proxy\<close>.\<close>

fun plain_tree :: "container \<Rightarrow> bool" where
  "plain_tree cs \<longleftrightarrow>
     distinct (map Keys cs) \<and> (\<forall>b \<in> set cs. \<not> proxy_like (GetFirstKey b) \<and> plain_tree (Children b))"

declare plain_tree.simps [simp del]

lemma merge_block_new:
  "\<not> proxy_like (GetFirstKey b) \<Longrightarrow> Keys b \<notin> Keys ` set as \<Longrightarrow> merge_block as b = as @ [b]"
  by (induction as) auto

lemma merge_block_same:
  "distinct (map Keys as) \<Longrightarrow> b \<in> set as \<Longrightarrow> \<not> proxy_like (GetFirstKey b) \<Longrightarrow>
   Merge (Children b) (Children b) = Children b \<Longrightarrow> merge_block as b = as"
proof (induction as)
  case (Cons a as)
  show ?case
  proof (cases "a = b")
    case True
    then show ?thesis using Cons.prems by (cases b) simp
  next
    case False
    then have "b \<in> set as" "Keys a \<noteq> Keys b" using Cons.prems(1,2) by force+
    then show ?thesis using Cons by simp
  qed
qed simp

lemma Merge_idem: "plain_tree cs \<Longrightarrow> Merge cs cs = cs"
proof (induction cs rule: plain_tree.induct)
  case (1 cs)
  have d: "distinct (map Keys cs)" and sub: "\<And>b. b \<in> set cs \<Longrightarrow> \<not> proxy_like (GetFirstKey b) \<and> plain_tree (Children b)"
    using iffD1 [OF plain_tree.simps 1(2)] by auto
  have "Merge cs bs = cs" if "set bs \<subseteq> set cs" for bs
    using that
  proof (induction bs)
    case (Cons b bs)
    then have b: "b \<in> set cs" by simp
    have "merge_block cs b = cs" using merge_block_same [OF d b] 1(1) [OF b] sub [OF b] by simp
    then show ?case using Cons by simp
  qed simp
  then show ?case by simp
qed

lemma Merge_disjoint:
  "distinct (map Keys bs) \<Longrightarrow> \<forall>b \<in> set bs. \<not> proxy_like (GetFirstKey b) \<Longrightarrow>
   Keys ` set as \<inter> Keys ` set bs = {} \<Longrightarrow> Merge as bs = as @ bs"
proof (induction bs arbitrary: as)
  case (Cons b bs)
  have "merge_block as b = as @ [b]" by (rule merge_block_new) (use Cons.prems in auto)
  moreover have "Merge (as @ [b]) bs = (as @ [b]) @ bs" by (rule Cons.IH) (use Cons.prems in auto)
  ultimately show ?case by simp
qed simp

text \<open>Two proxies for the same matcher become one, with the upstreams of both.\<close>

lemma Merge_proxies:
  assumes "proxy_like p" "isMatcher m"
  shows "Merge [Block o1 (p # m # us) as] [Block o2 (p # m # vs) bs] = [Block o1 (p # m # us @ vs) (Merge as bs)]"
  using assms by (simp add: GetFirstKey_def getMatcher_def proxy_keys_eq)

end
