(* ===== verification/Process.thy ===== *)
theory Process
  imports Unmarshal Marshal
begin

text \<open>
  Removing the blocks Caddy does not accept (\<open>caddyfile/processor.go\<close>). The Caddyfile adapter of
  Caddy is the parameter \<open>Adapt\<close>: the error it returns for a text, or \<open>None\<close>.

  \<open>newContainer.Remove(block)\<close> compares pointers, so the blocks of the new container carry the
  number of the loop iteration that added them.
\<close>

section \<open>Process\<close>

type_synonym tagged = "nat \<times> block"

text \<open>\<open>Container.Remove\<close>, and \<open>Marshal\<close>, which sorts the receiver in place before it writes it.\<close>

definition Remove :: "nat \<Rightarrow> tagged list \<Rightarrow> tagged list" where
  "Remove blockToDelete children = filter (\<lambda>b. fst b \<noteq> blockToDelete) children"

definition sort_tagged :: "tagged list \<Rightarrow> tagged list" where
  "sort_tagged children =
     slice_stable (\<lambda>a b. compare_blocks (snd a) (snd b) = -1)
       (map (\<lambda>b. (fst b, sort_block (snd b))) children)"

definition write_tagged :: "tagged list \<Rightarrow> string" where
  "write_tagged children = write_container (map snd children) 0"

definition removal_message :: "string \<Rightarrow> block \<Rightarrow> string" where
  "removal_message err b =
     ''[ERROR]  Removing invalid block: '' @ err @ [CHR 0x0A] @ MarshalBlock b @ [CHR 0x0A]"

fun process_blocks ::
  "(string \<Rightarrow> string option) \<Rightarrow> nat \<Rightarrow> block list \<Rightarrow> tagged list \<Rightarrow> string \<Rightarrow> tagged list \<times> string" where
  "process_blocks Adapt n [] newContainer logs = (newContainer, logs)"
| "process_blocks Adapt n (b # bs) newContainer logs =
     (let newContainer = sort_tagged (newContainer @ [(n, b)]) in
      case Adapt (write_tagged newContainer) of
        Some err \<Rightarrow> process_blocks Adapt (n + 1) bs (Remove n newContainer) (logs @ removal_message err b)
      | None \<Rightarrow> process_blocks Adapt (n + 1) bs newContainer logs)"

definition Process :: "(string \<Rightarrow> string option) \<Rightarrow> string \<Rightarrow> string \<times> string" where
  "Process Adapt caddyfileContent =
     (if length caddyfileContent = 0 then (caddyfileContent, [])
      else
        case Unmarshal caddyfileContent of
          Inl err \<Rightarrow> ([], ''[ERROR]  Invalid caddyfile: '' @ unmarshal_error_text err @ [CHR 0x0A] @
                          caddyfileContent @ [CHR 0x0A])
        | Inr container \<Rightarrow>
            let (newContainer, logs) = process_blocks Adapt 0 (sort_container container) [] []
            in (write_tagged (sort_tagged newContainer), logs))"

section \<open>Sorting does not move anything\<close>

text \<open>The blocks come in sorted order, so the container stays sorted and \<open>Remove\<close> takes back the
  block that was just added.\<close>

definition tags_below :: "nat \<Rightarrow> tagged list \<Rightarrow> bool" where
  "tags_below n bs \<longleftrightarrow> (\<forall>b \<in> set bs. fst b < n)"

lemma Remove_last: "tags_below n bs \<Longrightarrow> Remove n (bs @ [(n, b)]) = bs"
  unfolding Remove_def tags_below_def by (auto intro!: filter_True)

interpretation tagged_order: less_fun "\<lambda>a b :: tagged. compare_blocks (snd a) (snd b) = -1"
  using block_order.less_irrefl block_order.less_trans block_order.less_cover
  by unfold_locales blast+

definition sorted_tagged :: "tagged list \<Rightarrow> bool" where
  "sorted_tagged bs \<longleftrightarrow> sorted_container (map snd bs)"

lemma sort_sorted_tagged: "sorted_tagged bs \<Longrightarrow> sort_tagged bs = bs"
proof -
  assume "sorted_tagged bs"
  then have s: "sorted (map snd bs)" and c: "\<And>b. b \<in> set bs \<Longrightarrow> sorted_container (Children (snd b))"
    unfolding sorted_tagged_def sorted_container.simps [of "map snd bs"] by auto
  have "map (\<lambda>b. (fst b, sort_block (snd b))) bs = bs"
    by (rule map_idI) (simp add: sort_sorted_container c)
  moreover have "sorted_wrt (\<lambda>a b. \<not> compare_blocks (snd b) (snd a) = -1) bs"
    using s by (simp add: sorted_map sorted_wrt_map flip: less_block_def) (simp add: not_less)
  ultimately show ?thesis
    unfolding sort_tagged_def using tagged_order.slice_stable_id by simp
qed

lemma sorted_container_prefix: "sorted_container (as @ bs) \<Longrightarrow> sorted_container as"
  unfolding sorted_container.simps [of "as @ bs"] sorted_container.simps [of as] by (auto simp: sorted_append)

lemma sorted_container_skip: "sorted_container (as @ b # bs) \<Longrightarrow> sorted_container (as @ bs)"
  unfolding sorted_container.simps [of "as @ b # bs"] sorted_container.simps [of "as @ bs"] by (auto simp: sorted_append)

section \<open>What is kept and what is removed\<close>

text \<open>A block is kept if the adapter accepts the text of the blocks kept so far and this block.\<close>

fun keep_valid :: "(string \<Rightarrow> string option) \<Rightarrow> container \<Rightarrow> block list \<Rightarrow> container" where
  "keep_valid Adapt kept [] = kept"
| "keep_valid Adapt kept (b # bs) =
     keep_valid Adapt (if Adapt (write_container (kept @ [b]) 0) = None then kept @ [b] else kept) bs"

fun removals :: "(string \<Rightarrow> string option) \<Rightarrow> container \<Rightarrow> block list \<Rightarrow> (string \<times> block) list" where
  "removals Adapt kept [] = []"
| "removals Adapt kept (b # bs) =
     (case Adapt (write_container (kept @ [b]) 0) of
        None \<Rightarrow> removals Adapt (kept @ [b]) bs
      | Some err \<Rightarrow> (err, b) # removals Adapt kept bs)"

definition removal_log :: "(string \<times> block) list \<Rightarrow> string" where
  "removal_log rs = concat (map (\<lambda>(err, b). removal_message err b) rs)"

lemma process_blocks_eq:
  "sorted_container (map snd new @ bs) \<Longrightarrow> tags_below n new \<Longrightarrow>
   (case process_blocks Adapt n bs new logs of (new', logs') \<Rightarrow>
      map snd new' = keep_valid Adapt (map snd new) bs \<and> sorted_tagged new' \<and>
      logs' = logs @ removal_log (removals Adapt (map snd new) bs))"
proof (induction bs arbitrary: n new logs)
  case Nil
  then show ?case by (simp add: sorted_tagged_def removal_log_def)
next
  case (Cons b bs)
  have "sorted_container ((map snd new @ [b]) @ bs)" using Cons.prems(1) by simp
  then have "sorted_tagged (new @ [(n, b)])"
    using sorted_container_prefix by (simp add: sorted_tagged_def)
  then have s: "sort_tagged (new @ [(n, b)]) = new @ [(n, b)]" by (rule sort_sorted_tagged)
  have below: "tags_below (n + 1) (new @ [(n, b)])" "tags_below (n + 1) new"
    using Cons.prems(2) by (auto simp: tags_below_def)
  show ?case
  proof (cases "Adapt (write_container (map snd new @ [b]) 0)")
    case None
    then show ?thesis
      using Cons.IH [of "new @ [(n, b)]" "n + 1" logs] Cons.prems(1) below(1) s by (simp add: write_tagged_def)
  next
    case (Some err)
    then show ?thesis
      using Cons.IH [OF sorted_container_skip [OF Cons.prems(1)] below(2), of "logs @ removal_message err b"] s
        Remove_last [OF Cons.prems(2)]
      by (simp add: write_tagged_def removal_log_def split: prod.splits)
  qed
qed

lemma Process_parsed:
  assumes "content \<noteq> []" "Unmarshal content = Inr cs"
  shows "Process Adapt content =
    (write_container (keep_valid Adapt [] (sort_container cs)) 0, removal_log (removals Adapt [] (sort_container cs)))"
proof -
  obtain new logs where p: "process_blocks Adapt 0 (sort_container cs) [] [] = (new, logs)" by fastforce
  then have "map snd new = keep_valid Adapt [] (sort_container cs)" "sorted_tagged new"
      "logs = removal_log (removals Adapt [] (sort_container cs))"
    using process_blocks_eq [of "[]" "sort_container cs" 0 Adapt "[]"] sorted_sort_container
    by (auto simp: tags_below_def)
  then show ?thesis using assms p by (simp add: Process_def sort_sorted_tagged write_tagged_def)
qed

lemma keep_valid_accepted:
  "(kept = [] \<or> Adapt (write_container kept 0) = None) \<Longrightarrow>
   keep_valid Adapt kept bs = [] \<or> Adapt (write_container (keep_valid Adapt kept bs) 0) = None"
  by (induction bs arbitrary: kept) auto

lemma keep_valid_mset:
  "mset (keep_valid Adapt kept bs) + mset (map snd (removals Adapt kept bs)) = mset kept + mset bs"
  by (induction bs arbitrary: kept) (auto split: option.splits)


lemma keep_valid_all:
  "\<forall>n. Adapt (write_container (kept @ take n bs) 0) = None \<Longrightarrow>
   keep_valid Adapt kept bs = kept @ bs \<and> removals Adapt kept bs = []"
proof (induction bs arbitrary: kept)
  case (Cons b bs)
  have "Adapt (write_container (kept @ [b]) 0) = None" using Cons.prems [rule_format, of 1] by simp
  moreover have "\<forall>n. Adapt (write_container ((kept @ [b]) @ take n bs) 0) = None"
    using Cons.prems [rule_format, of "Suc n" for n] by simp
  ultimately show ?case using Cons.IH [of "kept @ [b]"] by simp
qed simp

end
