(* ===== verification/Regex.thy ===== *)
theory Regex
  imports GoStrings
begin

text \<open>
  The regular expressions the program uses, matched as package \<open>regexp\<close> does: leftmost-first, a
  greedy repetition tries the longest run before shorter ones and a lazy one the other way round.
  A matcher takes the rest of the match as a continuation, so backtracking is the failure of the
  continuation. The classes in use distinguish only ASCII characters, and every rune that is not
  ASCII is a run of bytes that are not ASCII, so matching bytes and matching runes agree.
\<close>

section \<open>Expressions and matching\<close>

datatype char_class = NotNewline | Digit | NotDot

fun in_class :: "char_class \<Rightarrow> char \<Rightarrow> bool" where
  "in_class NotNewline c \<longleftrightarrow> c \<noteq> CHR 0x0A"
| "in_class Digit c \<longleftrightarrow> is_digit c"
| "in_class NotDot c \<longleftrightarrow> c \<noteq> CHR ''.''"

datatype regex =
  Literal char
| Plus char_class
| PlusLazy char_class
| Capture nat regex
| Concat regex regex
| Optional regex
| Alt regex regex
| EndText
| Empty

type_synonym captures = "nat \<rightharpoonup> string"

text \<open>The matched text, the text after it and the captures so far go to the continuation.\<close>

type_synonym 'r matched = "string \<Rightarrow> string \<Rightarrow> captures \<Rightarrow> 'r option"

fun run_greedy :: "char_class \<Rightarrow> string \<Rightarrow> string \<Rightarrow> (string \<Rightarrow> string \<Rightarrow> 'r option) \<Rightarrow> 'r option" where
  "run_greedy cls taken [] k = None"
| "run_greedy cls taken (c # cs) k =
     (if in_class cls c
      then (case run_greedy cls (taken @ [c]) cs k of Some r \<Rightarrow> Some r | None \<Rightarrow> k (taken @ [c]) cs)
      else None)"

fun run_lazy :: "char_class \<Rightarrow> string \<Rightarrow> string \<Rightarrow> (string \<Rightarrow> string \<Rightarrow> 'r option) \<Rightarrow> 'r option" where
  "run_lazy cls taken [] k = None"
| "run_lazy cls taken (c # cs) k =
     (if in_class cls c
      then (case k (taken @ [c]) cs of Some r \<Rightarrow> Some r | None \<Rightarrow> run_lazy cls (taken @ [c]) cs k)
      else None)"

fun run_regex :: "regex \<Rightarrow> string \<Rightarrow> captures \<Rightarrow> 'r matched \<Rightarrow> 'r option" where
  "run_regex (Literal c) s m k = (case s of [] \<Rightarrow> None | d # ds \<Rightarrow> if d = c then k [d] ds m else None)"
| "run_regex (Plus cls) s m k = run_greedy cls [] s (\<lambda>x rest. k x rest m)"
| "run_regex (PlusLazy cls) s m k = run_lazy cls [] s (\<lambda>x rest. k x rest m)"
| "run_regex (Capture n r) s m k = run_regex r s m (\<lambda>x rest m'. k x rest (m'(n \<mapsto> x)))"
| "run_regex (Concat r1 r2) s m k =
     run_regex r1 s m (\<lambda>x rest m'. run_regex r2 rest m' (\<lambda>y rest' m''. k (x @ y) rest' m''))"
| "run_regex (Optional r) s m k = (case run_regex r s m k of Some v \<Rightarrow> Some v | None \<Rightarrow> k [] s m)"
| "run_regex (Alt r1 r2) s m k = (case run_regex r1 s m k of Some v \<Rightarrow> Some v | None \<Rightarrow> run_regex r2 s m k)"
| "run_regex EndText s m k = (if s = [] then k [] s m else None)"
| "run_regex Empty s m k = k [] s m"

text \<open>\<open>FindStringSubmatch\<close> of an expression anchored at both ends; a group that took no part in
  the match is the empty string in the result.\<close>

definition FindStringSubmatch :: "regex \<Rightarrow> string \<Rightarrow> (nat \<Rightarrow> string) option" where
  "FindStringSubmatch r s =
     map_option (\<lambda>m n. case m n of None \<Rightarrow> [] | Some x \<Rightarrow> x)
       (run_regex r s Map.empty (\<lambda>x rest m. if rest = [] then Some m else None))"

text \<open>\<open>MatchString\<close> of an expression anchored at the beginning, and \<open>QuoteMeta\<close>: the expression that
  matches a text literally.\<close>

definition MatchString :: "regex \<Rightarrow> string \<Rightarrow> bool" where
  "MatchString r s \<longleftrightarrow> run_regex r s Map.empty (\<lambda>x rest m. Some ()) \<noteq> None"

fun QuoteMeta :: "string \<Rightarrow> regex" where
  "QuoteMeta [] = Empty"
| "QuoteMeta (c # cs) = Concat (Literal c) (QuoteMeta cs)"

lemma run_QuoteMeta:
  "run_regex (QuoteMeta p) s m k = (if HasPrefix s p then k p (drop (length p) s) m else None)"
proof (induction p arbitrary: s k)
  case (Cons c p)
  then show ?case by (cases s) (auto simp: HasPrefix_def)
qed (simp add: HasPrefix_def)

lemma run_greedy_iff:
  "run_greedy cls t s k \<noteq> None \<longleftrightarrow>
   (\<exists>x y. s = x @ y \<and> x \<noteq> [] \<and> (\<forall>c \<in> set x. in_class cls c) \<and> k (t @ x) y \<noteq> None)"
proof (induction s arbitrary: t)
  case (Cons c s)
  have split: "(\<exists>x y. c # s = x @ y \<and> x \<noteq> [] \<and> (\<forall>d \<in> set x. in_class cls d) \<and> k (t @ x) y \<noteq> None) \<longleftrightarrow>
     in_class cls c \<and> (k (t @ [c]) s \<noteq> None \<or>
       (\<exists>x y. s = x @ y \<and> x \<noteq> [] \<and> (\<forall>d \<in> set x. in_class cls d) \<and> k (t @ [c] @ x) y \<noteq> None))" (is "?L \<longleftrightarrow> ?R")
  proof
    assume ?L
    then obtain x y where x: "c # s = x @ y" "x \<noteq> []" "\<forall>d \<in> set x. in_class cls d" "k (t @ x) y \<noteq> None" by blast
    then obtain x' where "x = c # x'" by (cases x) auto
    with x have "in_class cls c" "s = x' @ y" "\<forall>d \<in> set x'. in_class cls d" "k (t @ [c] @ x') y \<noteq> None" by auto
    then show ?R by (cases "x' = []") (simp, blast)
  next
    assume ?R
    then show ?L
    proof (elim conjE disjE exE)
      assume "in_class cls c" "k (t @ [c]) s \<noteq> None"
      then show ?L by (intro exI [of _ "[c]"] exI [of _ s]) simp
    next
      fix x y assume "in_class cls c" "s = x @ y" "x \<noteq> []" "\<forall>d \<in> set x. in_class cls d" "k (t @ [c] @ x) y \<noteq> None"
      then show ?L by (intro exI [of _ "c # x"] exI [of _ y]) simp
    qed
  qed
  show ?case
    unfolding split using Cons.IH [of "t @ [c]"] by (auto split: option.splits)
qed simp

section \<open>Matching when at most one split can succeed\<close>

lemma run_greedy_None:
  "(\<And>x y. s = x @ y \<Longrightarrow> x \<noteq> [] \<Longrightarrow> \<forall>c \<in> set x. in_class cls c \<Longrightarrow> k (t @ x) y = None) \<Longrightarrow> run_greedy cls t s k = None"
proof (induction s arbitrary: t)
  case (Cons c s)
  have "k (t @ [c]) s = None" if "in_class cls c" using Cons.prems [of "[c]" s] that by simp
  moreover have "run_greedy cls (t @ [c]) s k = None" if "in_class cls c"
  proof (rule Cons.IH)
    fix x y assume "s = x @ y" "x \<noteq> []" "\<forall>c \<in> set x. in_class cls c"
    then show "k ((t @ [c]) @ x) y = None" using Cons.prems [of "c # x" y] that by simp
  qed
  ultimately show ?case by simp
qed simp

lemma run_greedy_unique:
  assumes "s = x0 @ y0" "x0 \<noteq> []" "\<forall>c \<in> set x0. in_class cls c"
    and "\<And>x y. s = x @ y \<Longrightarrow> x \<noteq> [] \<Longrightarrow> x \<noteq> x0 \<Longrightarrow> \<forall>c \<in> set x. in_class cls c \<Longrightarrow> k (t @ x) y = None"
  shows "run_greedy cls t s k = k (t @ x0) y0"
  using assms
proof (induction s arbitrary: t x0)
  case (Cons c s)
  obtain x1 where x0: "x0 = c # x1" and s: "s = x1 @ y0" using Cons.prems(1,2) by (cases x0) auto
  have c: "in_class cls c" using Cons.prems(3) x0 by simp
  have other: "k ((t @ [c]) @ x) y = None"
    if "s = x @ y" "x \<noteq> x1" "\<forall>c \<in> set x. in_class cls c" for x y
    using Cons.prems(4) [of "c # x" y] that x0 c by simp
  show ?case
  proof (cases "x1 = []")
    case True
    have "run_greedy cls (t @ [c]) s k = None"
      by (rule run_greedy_None) (use other True in blast)
    then show ?thesis using c True s x0 by simp
  next
    case False
    have "run_greedy cls (t @ [c]) s k = k ((t @ [c]) @ x1) y0"
      by (rule Cons.IH [OF s False]) (use Cons.prems(3) x0 other in auto)
    then show ?thesis using c x0 other [of "[]" s] False by (cases "k (t @ x0) y0") simp_all
  qed
qed simp

end
