(* ===== verification/LabelPath.thy ===== *)
theory LabelPath
  imports Regex Block
begin

text \<open>
  The names of labels (\<open>labelParserRegex\<close>, \<open>parsePath\<close> of \<open>caddyfile/fromlabels.go\<close>): a label path
  is cut at its last dot, the last part holds an optional order, a name and an optional suffix.
\<close>

section \<open>parsePath\<close>

definition suffix_regex :: regex where
  "suffix_regex = Optional (Concat (Literal CHR ''_'') (Capture 4 (Plus Digit)))"

definition name_regex :: regex where
  "name_regex = Concat (Capture 3 (PlusLazy NotDot)) suffix_regex"

definition part_regex :: regex where
  "part_regex = Concat (Optional (Concat (Capture 2 (Plus Digit)) (Literal CHR ''_''))) name_regex"

definition labelParserRegex :: regex where
  "labelParserRegex = Concat (Optional (Concat (Capture 1 (Plus NotNewline)) (Literal CHR ''.''))) part_regex"

text \<open>Without a match the code indexes a nil slice and panics: \<open>None\<close>.\<close>

definition parsePath :: "string \<Rightarrow> (string \<times> int \<times> string) option" where
  "parsePath path =
     (case FindStringSubmatch labelParserRegex path of
        None \<Rightarrow> None
      | Some match \<Rightarrow>
          let parentPath = match 1;
              order = (if match 2 \<noteq> [] then fst (Atoi (match 2)) else MaxInt32);
              name = match 3
          in Some (parentPath, order, name))"

definition escapedDotPlaceholder :: string where
  "escapedDotPlaceholder = [CHR 0x00]"

definition escape_dots :: "string \<Rightarrow> string" where
  "escape_dots path = ReplaceAll path [CHR 0x5C, CHR ''.''] escapedDotPlaceholder"

definition unescape_dots :: "string \<Rightarrow> string" where
  "unescape_dots path = ReplaceAll path escapedDotPlaceholder [CHR 0x5C, CHR ''.'']"

section \<open>What the expression matches\<close>

text \<open>The order, name and suffix of the last part of a path.\<close>

definition number_suffix :: "string \<Rightarrow> bool" where
  "number_suffix s \<longleftrightarrow> s = [] \<or> hd s = CHR ''_'' \<and> tl s \<noteq> [] \<and> list_all is_digit (tl s)"

fun name_part :: "string \<Rightarrow> string" where
  "name_part [] = []"
| "name_part (c # cs) = c # (if number_suffix cs then [] else name_part cs)"

definition label_number :: "string \<Rightarrow> string" where
  "label_number r =
     (let ds = takeWhile is_digit r; u = dropWhile is_digit r in
      if ds \<noteq> [] \<and> u \<noteq> [] \<and> hd u = CHR ''_'' \<and> tl u \<noteq> [] then ds else [])"

definition label_order :: "string \<Rightarrow> int" where
  "label_order r = (if label_number r = [] then MaxInt32 else fst (Atoi (label_number r)))"

definition label_name :: "string \<Rightarrow> string" where
  "label_name r = name_part (if label_number r = [] then r else tl (dropWhile is_digit r))"

abbreviation accept :: "captures matched" where
  "accept \<equiv> \<lambda>x rest m. if rest = [] then Some m else None"

definition with_suffix :: "string \<Rightarrow> captures \<Rightarrow> captures" where
  "with_suffix s m = (if s = [] then m else m(4 \<mapsto> tl s))"

lemma run_suffix:
  "run_regex suffix_regex s m accept =
     (if number_suffix s then Some (with_suffix s m) else None)"
proof -
  have greedy: "run_greedy Digit [] ds (\<lambda>x rest. if rest = [] then Some (m(4 \<mapsto> x)) else None) =
      (if ds \<noteq> [] \<and> list_all is_digit ds then Some (m(4 \<mapsto> ds)) else None)" for ds
  proof (cases "ds \<noteq> [] \<and> list_all is_digit ds")
    case True
    then show ?thesis
      by (subst run_greedy_unique [of ds ds "[]"]) (auto simp: list_all_iff)
  next
    case False
    then show ?thesis by (subst run_greedy_None) (auto simp: list_all_iff)
  qed
  show ?thesis
    by (cases s) (auto simp: suffix_regex_def greedy number_suffix_def with_suffix_def)
qed

abbreviation match_name :: "string \<Rightarrow> captures \<Rightarrow> captures option" where
  "match_name s m \<equiv> run_regex name_regex s m accept"

lemma run_name:
  "match_name s m =
     (if s = [] \<or> CHR ''.'' \<in> set s then None
      else Some (with_suffix (drop (length (name_part s)) s) (m(3 \<mapsto> name_part s))))"
proof -
  have "run_lazy NotDot t s (\<lambda>x rest. if number_suffix rest then Some (with_suffix rest (m(3 \<mapsto> x))) else None) =
      (if s = [] \<or> CHR ''.'' \<in> set s then None
       else Some (with_suffix (drop (length (name_part s)) s) (m(3 \<mapsto> t @ name_part s))))" for t
  proof (induction s arbitrary: t)
    case (Cons c s)
    have "number_suffix s \<Longrightarrow> CHR ''.'' \<notin> set s"
      by (cases s) (auto simp: number_suffix_def list_all_iff is_digit_def)
    moreover have "s = [] \<Longrightarrow> number_suffix s" by (simp add: number_suffix_def)
    ultimately show ?case using Cons.IH [of "t @ [c]"] by (auto simp: fun_upd_def)
  qed simp
  from this [of "[]"] show ?thesis
    by (simp add: name_regex_def run_suffix)
qed

abbreviation match_part :: "string \<Rightarrow> captures \<Rightarrow> captures option" where
  "match_part s m \<equiv> run_regex part_regex s m accept"

lemma take_digits_unique:
  assumes "s = x @ CHR ''_'' # z" "\<forall>c \<in> set x. is_digit c"
  shows "x = takeWhile is_digit s" "CHR ''_'' # z = dropWhile is_digit s"
  using assms by (auto simp: takeWhile_append2 dropWhile_append2 is_digit_def)

lemma run_part:
  "match_part s m =
     (if label_number s = [] then match_name s m
      else match_name (tl (dropWhile is_digit s)) (m(2 \<mapsto> label_number s)))"
proof -
  let ?ds = "takeWhile is_digit s" and ?u = "dropWhile is_digit s"
  define K where "K = (\<lambda>x rest. case rest of [] \<Rightarrow> None
    | d # ds \<Rightarrow> if d = CHR ''_'' then match_name ds (m(2 \<mapsto> x)) else None)"
  have "match_part s m = (case run_greedy Digit [] s K of Some v \<Rightarrow> Some v | None \<Rightarrow> match_name s m)"
    by (simp add: K_def part_regex_def)
  moreover have "run_greedy Digit [] s K =
      (if ?ds \<noteq> [] \<and> ?u \<noteq> [] \<and> hd ?u = CHR ''_'' then match_name (tl ?u) (m(2 \<mapsto> ?ds)) else None)"
  proof (cases "?ds \<noteq> [] \<and> ?u \<noteq> [] \<and> hd ?u = CHR ''_''")
    case True
    have "run_greedy Digit [] s K = K ([] @ ?ds) ?u"
    proof (rule run_greedy_unique)
      show "s = ?ds @ ?u" by simp
      show "?ds \<noteq> []" "\<forall>c \<in> set ?ds. in_class Digit c" using True by (auto dest: set_takeWhileD)
      fix x y assume "s = x @ y" "x \<noteq> ?ds" "\<forall>c \<in> set x. in_class Digit c"
      then show "K ([] @ x) y = None"
        using take_digits_unique(1) [of s x] by (auto simp: K_def split: list.split)
    qed
    then show ?thesis using True by (cases ?u) (auto simp: K_def)
  next
    case False
    have "run_greedy Digit [] s K = None"
    proof (rule run_greedy_None)
      fix x y assume "s = x @ y" "x \<noteq> []" "\<forall>c \<in> set x. in_class Digit c"
      then show "K ([] @ x) y = None"
        using take_digits_unique [of s x "tl y"] False by (cases y) (auto simp: K_def)
    qed
    with False show ?thesis by auto
  qed
  moreover have "CHR ''.'' \<in> set s" if "CHR ''.'' \<in> set (tl ?u)"
    using that by (metis list.sel(2) list.set_sel(2) set_dropWhileD)
  ultimately show ?thesis
    by (auto simp: run_name label_number_def Let_def)
qed

lemma run_part_eq:
  "match_part s m =
     (if s = [] \<or> CHR ''.'' \<in> set s then None
      else let u = (if label_number s = [] then s else tl (dropWhile is_digit s));
               m = (if label_number s = [] then m else m(2 \<mapsto> label_number s))
           in Some (with_suffix (drop (length (name_part u)) u) (m(3 \<mapsto> name_part u))))"
proof (cases "label_number s = []")
  case True
  then show ?thesis by (simp add: run_part run_name)
next
  case False
  let ?u = "dropWhile is_digit s"
  have u: "?u \<noteq> []" "hd ?u = CHR ''_''" "tl ?u \<noteq> []" using False by (auto simp: label_number_def Let_def split: if_splits)
  then have "s = takeWhile is_digit s @ CHR ''_'' # tl ?u" by (metis list.collapse takeWhile_dropWhile_id)
  then have "CHR ''.'' \<in> set s \<longleftrightarrow> CHR ''.'' \<in> set (takeWhile is_digit s @ CHR ''_'' # tl ?u)" by simp
  moreover have "CHR ''.'' \<notin> set (takeWhile is_digit s)" by (auto dest: set_takeWhileD simp: is_digit_def)
  ultimately have "CHR ''.'' \<in> set s \<longleftrightarrow> CHR ''.'' \<in> set (tl ?u)" by simp
  then show ?thesis using False u(1,3) by (cases "s = []") (simp_all add: run_part run_name Let_def)
qed

text \<open>The result of \<open>parsePath\<close>, without and with a dot in the path.\<close>

lemma parsePath_of_part:
  assumes "run_regex labelParserRegex path Map.empty accept = match_part r m" "m 2 = None"
  shows "parsePath path =
    (if r = [] \<or> CHR ''.'' \<in> set r then None
     else Some (case m 1 of None \<Rightarrow> [] | Some x \<Rightarrow> x, label_order r, label_name r))"
  using assms
  by (auto simp: parsePath_def FindStringSubmatch_def run_part_eq with_suffix_def Let_def label_order_def label_name_def)

lemma run_label:
  "run_regex labelParserRegex path Map.empty accept =
     (case run_greedy NotNewline [] path
        (\<lambda>x rest. case rest of [] \<Rightarrow> None | d # ds \<Rightarrow> if d = CHR ''.'' then match_part ds [1 \<mapsto> x] else None) of
        Some v \<Rightarrow> Some v | None \<Rightarrow> match_part path Map.empty)"
  by (simp add: labelParserRegex_def del: One_nat_def)

lemma parsePath_plain:
  assumes "CHR ''.'' \<notin> set path"
  shows "parsePath path = (if path = [] then None else Some ([], label_order path, label_name path))"
proof -
  have "run_greedy NotNewline [] path
      (\<lambda>x rest. case rest of [] \<Rightarrow> None | d # ds \<Rightarrow> if d = CHR ''.'' then match_part ds [1 \<mapsto> x] else None) = None"
  proof (rule run_greedy_None)
    fix x y assume "path = x @ y"
    then have "CHR ''.'' \<notin> set y" using assms by simp
    then show "(case y of [] \<Rightarrow> None | d # ds \<Rightarrow> if d = CHR ''.'' then match_part ds [1 \<mapsto> [] @ x] else None) = None"
      by (cases y) auto
  qed
  then show ?thesis using parsePath_of_part [of path path Map.empty] assms by (simp add: run_label)
qed

lemma parsePath_dotted:
  assumes r: "CHR ''.'' \<notin> set r"
  shows "parsePath (p @ CHR ''.'' # r) =
    (if p = [] \<or> CHR 0x0A \<in> set p \<or> r = [] then None else Some (p, label_order r, label_name r))"
proof -
  let ?path = "p @ CHR ''.'' # r"
  define K where "K = (\<lambda>x rest. case rest of [] \<Rightarrow> None
    | d # ds \<Rightarrow> if d = CHR ''.'' then match_part ds [1 \<mapsto> x] else None)"
  have other: "K x y = None" if "?path = x @ y" "x \<noteq> p" for x y
  proof (cases y)
    case (Cons d ds)
    have "CHR ''.'' \<in> set ds" if "d = CHR ''.''"
      using \<open>?path = x @ y\<close> \<open>x \<noteq> p\<close> r that Cons by (auto simp: append_eq_append_conv2 Cons_eq_append_conv append_eq_Cons_conv)
    then show ?thesis by (simp add: K_def Cons run_part_eq)
  qed (simp add: K_def)
  have g: "run_greedy NotNewline [] ?path K =
      (if p \<noteq> [] \<and> CHR 0x0A \<notin> set p then match_part r [1 \<mapsto> p] else None)"
  proof (cases "p \<noteq> [] \<and> CHR 0x0A \<notin> set p")
    case True
    have "run_greedy NotNewline [] ?path K = K ([] @ p) (CHR ''.'' # r)"
      by (rule run_greedy_unique) (use True other in auto)
    then show ?thesis using True by (simp add: K_def)
  next
    case False
    have "run_greedy NotNewline [] ?path K = None"
      by (rule run_greedy_None) (use False other in auto)
    with False show ?thesis by auto
  qed
  have no: "match_part ?path Map.empty = None" by (simp add: run_part_eq)
  have e: "run_regex labelParserRegex ?path Map.empty accept =
      (case run_greedy NotNewline [] ?path K of Some v \<Rightarrow> Some v | None \<Rightarrow> None)"
    unfolding run_label K_def no by simp
  show ?thesis
  proof (cases "p \<noteq> [] \<and> CHR 0x0A \<notin> set p")
    case True
    then have "run_regex labelParserRegex ?path Map.empty accept = match_part r [1 \<mapsto> p]"
      unfolding e g by (simp split: option.split)
    from parsePath_of_part [OF this] show ?thesis using True r by simp
  next
    case False
    then show ?thesis using e g by (auto simp: parsePath_def FindStringSubmatch_def)
  qed
qed

lemma parsePath_parent:
  assumes "parsePath path = Some (p, ord, name)" "p \<noteq> []"
  obtains r where "path = p @ CHR ''.'' # r"
proof (cases "CHR ''.'' \<in> set path")
  case True
  then obtain p' r where "path = p' @ CHR ''.'' # r" "CHR ''.'' \<notin> set r"
    by (meson split_list_last)
  then show thesis using assms that parsePath_dotted [of r p'] by (auto split: if_splits)
next
  case False
  then show thesis using assms parsePath_plain [OF False] by (auto split: if_splits)
qed

section \<open>Escaped dots\<close>

lemma escape_dots_simps [simp]:
  "escape_dots [] = []"
  "escape_dots (c # cs) =
     (if c = CHR 0x5C \<and> cs \<noteq> [] \<and> hd cs = CHR ''.'' then CHR 0x00 # escape_dots (tl cs) else c # escape_dots cs)"
  by (cases cs; auto simp: escape_dots_def escapedDotPlaceholder_def HasPrefix_def)+

lemma unescape_dots_eq:
  "unescape_dots p = concat (map (\<lambda>c. if c = CHR 0x00 then [CHR 0x5C, CHR ''.''] else [c]) p)"
  by (simp add: unescape_dots_def escapedDotPlaceholder_def ReplaceAll_single)

text \<open>An escaped path has no backslash before a dot, and such a path survives unescaping.\<close>

fun no_escaped_dot :: "string \<Rightarrow> bool" where
  "no_escaped_dot (c # d # cs) \<longleftrightarrow> \<not> (c = CHR 0x5C \<and> d = CHR ''.'') \<and> no_escaped_dot (d # cs)"
| "no_escaped_dot _ \<longleftrightarrow> True"

lemma no_escaped_dot_escape: "no_escaped_dot (escape_dots p)"
proof (induction p rule: length_induct)
  case (1 p)
  show ?case
  proof (cases p)
    case (Cons c cs)
    have "no_escaped_dot (escape_dots cs)" "no_escaped_dot (escape_dots (tl cs))"
      using Cons by (auto intro!: 1 [rule_format])
    then show ?thesis using Cons by (cases cs; cases "tl cs") auto
  qed simp
qed

lemma no_escaped_dot_prefix: "no_escaped_dot (p @ q) \<Longrightarrow> no_escaped_dot p"
  by (induction p rule: no_escaped_dot.induct) auto

lemma escape_unescape: "no_escaped_dot p \<Longrightarrow> escape_dots (unescape_dots p) = p"
  by (induction p rule: no_escaped_dot.induct) (auto simp: unescape_dots_eq)

lemma parent_shorter:
  assumes "parsePath (escape_dots path) = Some (p, ord, name)" "unescape_dots p \<noteq> []"
  shows "length (escape_dots (unescape_dots p)) < length (escape_dots path)"
proof -
  have "p \<noteq> []" using assms(2) by (auto simp: unescape_dots_eq)
  then obtain r where r: "escape_dots path = p @ CHR ''.'' # r" using parsePath_parent [OF assms(1)] by metis
  then have "no_escaped_dot p" using no_escaped_dot_prefix no_escaped_dot_escape by metis
  then show ?thesis using r by (simp add: escape_unescape)
qed

end
