(* ===== verification/LabelTree.thy ===== *)
theory LabelTree
  imports TreeStore Ordering
begin

text \<open>
  A tree of blocks whose blocks are named (\<open>tree_store.labelled\<close>) is determined by the names, the
  parent of each name, and what each block holds, up to the order of siblings.
\<close>

lemma labelled_child:
  assumes l: "container_store.labelled par ord ks L c" and root: "L [] = None"
    and ds: "container_at c x = Some ds" and x: "if p = [] then x = [] else L p = Some x" and q: "L q = Some y"
  shows "par q = p \<longleftrightarrow> (\<exists>i < length ds. y = x @ [i])"
proof -
  have inj: "\<And>q q' y. L q = Some y \<Longrightarrow> L q' = Some y \<Longrightarrow> q = q'" and hang: "hangs_at par L q y" and node: "\<And>q y. L q = Some y \<Longrightarrow> node_at c y \<noteq> None"
    using l q unfolding container_store.labelled_def by blast+
  have nonempty: "L q' \<noteq> Some []" for q' using node [of q' "[]"] by auto
  have "par q = p \<longleftrightarrow> (\<exists>i. y = x @ [i])"
  proof
    show "\<exists>i. y = x @ [i]" if "par q = p" using hang that x by (auto simp: hangs_at_def split: if_splits)
    show "par q = p" if "\<exists>i. y = x @ [i]"
      using hang that x inj nonempty by (auto simp: hangs_at_def split: if_splits)
  qed
  moreover have "i < length ds" if "y = x @ [i]" for i
    using node [OF q] node_at_child [of c x i] ds that by (simp add: width_at_def)
  ultimately show ?thesis by blast
qed

lemma labelled_names:
  assumes l: "container_store.labelled par ord ks L c" and root: "L [] = None"
    and ds: "container_at c x = Some ds" and x: "if p = [] then x = [] else L p = Some x"
  obtains qs where "distinct qs" "set qs = {q \<in> dom L. par q = p}"
    "ds = map (\<lambda>q. the (block_at c (the (L q)))) qs"
proof -
  have inj: "\<And>q q' y. L q = Some y \<Longrightarrow> L q' = Some y \<Longrightarrow> q = q'" and named: "\<And>y. node_at c y \<noteq> None \<Longrightarrow> \<exists>q. L q = Some y"
    using l unfolding container_store.labelled_def by blast+
  note child = labelled_child [OF l root ds x]
  have "\<forall>i < length ds. \<exists>q. L q = Some (x @ [i])"
    using named node_at_child [of c x] ds by (simp add: width_at_def)
  then obtain f where f: "L (f i) = Some (x @ [i])" if "i < length ds" for i by metis
  let ?qs = "map f [0..<length ds]"
  have "inj_on f {0..<length ds}"
  proof (rule inj_onI)
    fix i j assume "i \<in> {0..<length ds}" "j \<in> {0..<length ds}" "f i = f j"
    then have "Some (x @ [i]) = Some (x @ [j])" using f by (metis atLeastLessThan_iff)
    then show "i = j" by simp
  qed
  then have "distinct ?qs" by (simp add: distinct_map)
  moreover have "set ?qs = {q \<in> dom L. par q = p}"
  proof (intro equalityI subsetI)
    fix q assume "q \<in> set ?qs"
    then obtain i where "q = f i" "i < length ds" by auto
    then show "q \<in> {q \<in> dom L. par q = p}" using f [of i] child [of q "x @ [i]"] by (simp add: domI)
  next
    fix q assume "q \<in> {q \<in> dom L. par q = p}"
    then obtain i where "L q = Some (x @ [i])" "i < length ds" using child by blast
    then have "q = f i" "i < length ds" using f inj by blast+
    then show "q \<in> set ?qs" by simp
  qed
  moreover have "ds = map (\<lambda>q. the (block_at c (the (L q)))) ?qs"
    by (rule nth_equalityI) (simp_all add: f block_at_snoc ds)
  ultimately show thesis by (rule that)
qed

lemma labelled_block:
  assumes "container_store.labelled par ord ks L c" "L q = Some y"
  obtains b where "block_at c y = Some b" "Order b = ord q" "Keys b = ks q"
    "container_at c y = Some (Children b)"
proof -
  have n: "node_at c y = Some (ord q, ks q)"
    using assms unfolding container_store.labelled_def by blast
  then obtain b where b: "block_at c y = Some b" "Order b = ord q" "Keys b = ks q"
    by (auto simp: node_at_def)
  moreover have "y \<noteq> []" using n by auto
  ultimately show thesis using that container_at_block [of y c] by simp
qed

lemma labelled_containers_perm:
  assumes l1: "container_store.labelled par ord ks L1 c1" and l2: "container_store.labelled par ord ks L2 c2"
    and dom: "dom L1 = dom L2" and root: "[] \<notin> dom L1"
  shows "container_at c1 x = Some ds \<Longrightarrow> container_at c2 y = Some es \<Longrightarrow>
    (if p = [] then x = [] else L1 p = Some x) \<Longrightarrow> (if p = [] then y = [] else L2 p = Some y) \<Longrightarrow>
    container_perm ds es"
proof (induction ds arbitrary: es x y p rule: measure_induct_rule [where f = "size_list size"])
  case (less ds)
  let ?T1 = "\<lambda>q. the (block_at c1 (the (L1 q)))" and ?T2 = "\<lambda>q. the (block_at c2 (the (L2 q)))"
  have r: "L1 [] = None" "L2 [] = None" using root dom by auto
  obtain qs where qs: "distinct qs" "set qs = {q \<in> dom L1. par q = p}" "ds = map ?T1 qs"
    by (rule labelled_names [OF l1 r(1) less.prems(1,3)])
  obtain qs' where qs': "distinct qs'" "set qs' = {q \<in> dom L2. par q = p}" "es = map ?T2 qs'"
    by (rule labelled_names [OF l2 r(2) less.prems(2,4)])
  have perm: "mset qs = mset qs'" using qs(1,2) qs'(1,2) dom set_eq_iff_mset_eq_distinct by metis
  have "block_perm (?T1 q) (?T2 q)" if q: "q \<in> set qs" for q
  proof -
    have "q \<in> dom L1" "q \<in> dom L2" using q qs(2) dom by simp_all
    then obtain z1 z2 where z: "L1 q = Some z1" "L2 q = Some z2" by (auto simp only: dom_def mem_Collect_eq)
    obtain b1 where b1: "block_at c1 z1 = Some b1" "Order b1 = ord q" "Keys b1 = ks q"
      "container_at c1 z1 = Some (Children b1)" by (rule labelled_block [OF l1 z(1)])
    obtain b2 where b2: "block_at c2 z2 = Some b2" "Order b2 = ord q" "Keys b2 = ks q"
      "container_at c2 z2 = Some (Children b2)" by (rule labelled_block [OF l2 z(2)])
    have "b1 \<in> set ds" using q qs(3) z b1 by force
    then have "size_list size (Children b1) < size_list size ds" by (rule size_Children_in_list)
    moreover have "q \<noteq> []" using q qs(2) root by auto
    ultimately have "container_perm (Children b1) (Children b2)"
      using less.IH [OF _ b1(4) b2(4), of q] z by simp
    then show ?thesis using z b1 b2 by (simp add: block_perm_iff)
  qed
  then have "list_all2 block_perm (map ?T1 qs) (map ?T2 qs)" by (auto simp: list_all2_conv_all_nth)
  moreover have "mset (map ?T2 qs) = mset (map ?T2 qs')" using perm by simp
  ultimately show ?case unfolding container_perm_def qs(3) qs'(3) by blast
qed

lemma labelled_perm:
  assumes "container_store.labelled par ord ks L1 c1" "container_store.labelled par ord ks L2 c2"
    and "dom L1 = dom L2" "[] \<notin> dom L1"
  shows "container_perm c1 c2"
  using labelled_containers_perm [OF assms, of "[]" c1 "[]" c2 "[]"] by simp

end
