(* ===== verification/Labels.thy ===== *)
theory Labels
  imports LabelTree LabelPath Lexer Marshal
begin

text \<open>
  Converting labels into a container (\<open>FromLabels\<close>, \<open>getOrCreateBlock\<close>, \<open>parseArgs\<close> of
  \<open>caddyfile/fromlabels.go\<close>). \<open>blocksByPath\<close> maps a path to the position of its block. The labels
  are given in the order in which the iteration over the Go map delivers them; expanding the
  template of a value (\<open>processVariables\<close>, package \<open>text/template\<close>) is the parameter
  \<open>processVariables\<close> of the definitions.
\<close>

section \<open>FromLabels\<close>

datatype labels_error = NilMatch | TemplateError string | ArgsError string

type_synonym build_state = "container \<times> (string \<rightharpoonup> pos)"

text \<open>Appending a block to the container at a position, and the position of the new block.\<close>

definition add_child :: "pos \<Rightarrow> block \<Rightarrow> container \<Rightarrow> pos \<times> container" where
  "add_child u b cs =
     (u @ [case width_at cs u of None \<Rightarrow> 0 | Some n \<Rightarrow> n], AddBlockAt u b cs)"

function getOrCreateBlock :: "string \<Rightarrow> build_state \<Rightarrow> (pos \<times> build_state) option" where
  "getOrCreateBlock path (cs, blocksByPath) =
     (case blocksByPath path of
        Some x \<Rightarrow> Some (x, cs, blocksByPath)
      | None \<Rightarrow>
          (case parsePath (escape_dots path) of
             None \<Rightarrow> None
           | Some (parentPath, order, name) \<Rightarrow>
               if unescape_dots parentPath \<noteq> [] then
                 (case getOrCreateBlock (unescape_dots parentPath) (cs, blocksByPath) of
                    None \<Rightarrow> None
                  | Some (u, cs, blocksByPath) \<Rightarrow>
                      let b = AddKeys [ReplaceAll name escapedDotPlaceholder ''.''] (Block order [] CreateContainer);
                          (x, cs) = add_child u b cs
                      in Some (x, cs, blocksByPath(path \<mapsto> x)))
               else
                 let (x, cs) = add_child [] (Block order [] CreateContainer) cs
                 in Some (x, cs, blocksByPath(path \<mapsto> x))))"
  by pat_completeness auto
termination
  by (relation "measure (\<lambda>(path, s). length (escape_dots path))") (auto intro: parent_shorter)

declare getOrCreateBlock.simps [simp del]

definition parseArgs :: "string \<Rightarrow> string list result" where
  "parseArgs text =
     (if length text = 0 then Inr []
      else case load text of Inl e \<Rightarrow> Inl e | Inr l \<Rightarrow> Inr (map Text (lex_all [] l)))"

definition add_label :: "(string \<Rightarrow> string result) \<Rightarrow> string \<times> string \<Rightarrow> build_state \<Rightarrow> labels_error + build_state" where
  "add_label processVariables lv s =
     (case getOrCreateBlock (fst lv) s of
        None \<Rightarrow> Inl NilMatch
      | Some (x, cs, blocksByPath) \<Rightarrow>
          (case processVariables (snd lv) of
             Inl e \<Rightarrow> Inl (TemplateError e)
           | Inr argsText \<Rightarrow>
               (case parseArgs argsText of
                  Inl e \<Rightarrow> Inl (ArgsError e)
                | Inr args \<Rightarrow> Inr (AddKeysAt x args cs, blocksByPath))))"

fun add_labels :: "(string \<Rightarrow> string result) \<Rightarrow> (string \<times> string) list \<Rightarrow> build_state \<Rightarrow> labels_error + build_state" where
  "add_labels processVariables [] s = Inr s"
| "add_labels processVariables (lv # labels) s =
     (case add_label processVariables lv s of
        Inl e \<Rightarrow> Inl e
      | Inr s' \<Rightarrow> add_labels processVariables labels s')"

definition FromLabels :: "(string \<Rightarrow> string result) \<Rightarrow> (string \<times> string) list \<Rightarrow> labels_error + container" where
  "FromLabels processVariables labels =
     (case add_labels processVariables labels (CreateContainer, Map.empty) of
        Inl e \<Rightarrow> Inl e
      | Inr (cs, _) \<Rightarrow> Inr cs)"

text \<open>A value without blanks and quotes is one argument.\<close>

lemma parseArgs_plain:
  assumes "plain_key (decode_runes s)" "valid_utf8 s" "hd (decode_runes s) \<noteq> 65279"
  shows "parseArgs s = Inr [s]"
proof -
  obtain r rs where rs: "decode_runes s = r # rs" using assms(1) by (cases "decode_runes s") (auto simp: plain_key_def)
  then have "load s = Inr (at_start (r # rs) 1 \<lparr>File = [], Line = 0, Text = []\<rparr>)" and "s \<noteq> []"
    using assms(3) by (auto simp: load_def at_start_def)
  moreover have "lex_all [] (at_start (r # rs) 1 t) = [key_token [] 1 (r # rs)]" for t
    using lexes_end [OF lexes_plain_end] assms(1) rs by metis
  moreover have "encode_runes (r # rs) = s" using assms(2) rs by (simp add: valid_utf8_def)
  ultimately show ?thesis by (simp add: parseArgs_def key_token_def)
qed

section \<open>What a path says about its block\<close>

definition parent_of :: "string \<Rightarrow> string" where
  "parent_of path =
     (case parsePath (escape_dots path) of None \<Rightarrow> [] | Some (parentPath, _, _) \<Rightarrow> unescape_dots parentPath)"

definition path_order :: "string \<Rightarrow> int" where
  "path_order path = (case parsePath (escape_dots path) of None \<Rightarrow> MaxInt32 | Some (_, order, _) \<Rightarrow> order)"

definition path_keys :: "string \<Rightarrow> string list" where
  "path_keys path =
     (case parsePath (escape_dots path) of
        None \<Rightarrow> []
      | Some (_, _, name) \<Rightarrow> if parent_of path = [] then [] else [ReplaceAll name escapedDotPlaceholder ''.''])"

lemma parent_of_shorter [termination_simp]:
  "parent_of path \<noteq> [] \<Longrightarrow> length (escape_dots (parent_of path)) < length (escape_dots path)"
  using parent_shorter [of path] by (auto simp: parent_of_def split: option.splits)

text \<open>A path and those above it; a path is fine if every one of them matches.\<close>

function ancestors :: "string \<Rightarrow> string list" where
  "ancestors path = path # (if parent_of path = [] then [] else ancestors (parent_of path))"
  by pat_completeness auto
termination
  by (relation "measure (\<lambda>path. length (escape_dots path))") (auto intro: parent_of_shorter)

declare ancestors.simps [simp del]

definition path_ok :: "string \<Rightarrow> bool" where
  "path_ok path \<longleftrightarrow> (\<forall>p \<in> set (ancestors path). parsePath (escape_dots p) \<noteq> None)"

lemma path_in_ancestors [simp]: "path \<in> set (ancestors path)"
  by (subst ancestors.simps) simp

lemma set_ancestors:
  "set (ancestors path) = insert path (if parent_of path = [] then {} else set (ancestors (parent_of path)))"
  by (subst ancestors.simps) simp

lemma ancestors_length: "q \<in> set (ancestors path) \<Longrightarrow> length (escape_dots q) \<le> length (escape_dots path)"
proof (induction path rule: ancestors.induct)
  case (1 path)
  then show ?case using parent_of_shorter [of path] by (auto simp: set_ancestors [of path] split: if_splits)
qed

lemma ancestors_trans: "q \<in> set (ancestors p) \<Longrightarrow> set (ancestors q) \<subseteq> set (ancestors p)"
proof (induction p rule: ancestors.induct)
  case (1 p)
  then show ?case by (auto simp: set_ancestors [of p] split: if_splits)
qed

lemma parsePath_empty: "parsePath [] = None"
  by (simp add: parsePath_plain)

lemma path_ok_parent: "path_ok path \<longleftrightarrow>
   parsePath (escape_dots path) \<noteq> None \<and> (parent_of path \<noteq> [] \<longrightarrow> path_ok (parent_of path))"
  by (auto simp: path_ok_def set_ancestors [of path])

section \<open>The tree of the labels\<close>

abbreviation labelled_by :: "(string \<Rightarrow> string list) \<Rightarrow> (string \<rightharpoonup> pos) \<Rightarrow> container \<Rightarrow> bool" where
  "labelled_by ks m cs \<equiv>
     container_store.labelled parent_of path_order ks m cs \<and> (\<forall>p \<in> dom m. path_ok p)"

lemma labelled_ancestors: "labelled_by ks m cs \<Longrightarrow> p \<in> dom m \<Longrightarrow> set (ancestors p) \<subseteq> dom m"
proof (induction p rule: ancestors.induct)
  case (1 p)
  obtain x where x: "m p = Some x" using "1.prems"(2) by blast
  then have "hangs_at parent_of m p x"
    using "1.prems"(1) unfolding container_store.labelled_def by blast
  then have "parent_of p \<noteq> [] \<Longrightarrow> parent_of p \<in> dom m" by (auto simp: hangs_at_def)
  then show ?case using 1 by (auto simp: set_ancestors [of p] split: if_splits)
qed

lemma add_child_labelled:
  assumes "labelled_by ks m cs" "m p = None" "path_ok p" "if parent_of p = [] then u = [] else m (parent_of p) = Some u"
    and "add_child u (Block (path_order p) (path_keys p) []) cs = (x, cs')" "ks p = path_keys p"
  shows "labelled_by ks (m(p \<mapsto> x)) cs'"
proof -
  have "\<exists>n. width_at cs u = Some n"
  proof (cases "parent_of p = []")
    case True
    then show ?thesis using assms(4) by simp
  next
    case False
    then show ?thesis using assms(4) container_store.labelled_width [OF conjunct1 [OF assms(1)]] by simp
  qed
  then obtain n where n: "width_at cs u = Some n" by blast
  then have "x = u @ [n]" "cs' = AddBlockAt u (Block (path_order p) (path_keys p) []) cs"
    using assms(5) by (simp_all add: add_child_def)
  then show ?thesis
    using container_store.labelled_add_block [OF conjunct1 [OF assms(1)] assms(2) _ assms(4) n,
        of "Block (path_order p) (path_keys p) []"] assms(1,3,6) by simp
qed

text \<open>The recursion over paths, with what a path says about its block.\<close>

definition add_path :: "string \<Rightarrow> pos \<Rightarrow> build_state \<Rightarrow> pos \<times> build_state" where
  "add_path path u s =
     (let (x, cs) = add_child u (Block (path_order path) (path_keys path) []) (fst s) in (x, cs, (snd s)(path \<mapsto> x)))"

lemma getOrCreateBlock_eq:
  "getOrCreateBlock path (cs, m) =
     (case m path of
        Some x \<Rightarrow> Some (x, cs, m)
      | None \<Rightarrow>
          if parsePath (escape_dots path) = None then None
          else if parent_of path = [] then Some (add_path path [] (cs, m))
          else case getOrCreateBlock (parent_of path) (cs, m) of
            None \<Rightarrow> None
          | Some (u, s) \<Rightarrow> Some (add_path path u s))"
  by (subst getOrCreateBlock.simps)
    (auto simp: add_path_def parent_of_def path_order_def path_keys_def CreateContainer_def Let_def split: option.splits prod.splits)

lemma add_path_spec:
  assumes "labelled_by ks m cs" "m path = None" "path_ok path" "if parent_of path = [] then u = [] else m (parent_of path) = Some u"
    and "ks path = path_keys path"
  obtains x cs' where "add_path path u (cs, m) = (x, cs', m(path \<mapsto> x))" "labelled_by ks (m(path \<mapsto> x)) cs'"
proof -
  obtain x cs' where x: "add_child u (Block (path_order path) (path_keys path) []) cs = (x, cs')" by fastforce
  show thesis by (rule that [OF _ add_child_labelled [OF assms(1-4) x assms(5)]]) (simp add: add_path_def x)
qed

lemma getOrCreateBlock_spec:
  assumes "labelled_by ks m cs" and "\<And>q. m q = None \<Longrightarrow> ks q = path_keys q"
  shows "case getOrCreateBlock path (cs, m) of
      None \<Rightarrow> \<not> path_ok path
    | Some (x, cs', m') \<Rightarrow> path_ok path \<and> m' path = Some x \<and> labelled_by ks m' cs' \<and>
        dom m' = dom m \<union> set (ancestors path)"
  using assms
proof (induction "length (escape_dots path)" arbitrary: path rule: less_induct)
  case less
  consider x where "m path = Some x" | "m path = None" "parsePath (escape_dots path) = None"
    | "m path = None" "parsePath (escape_dots path) \<noteq> None" "parent_of path = []"
    | "m path = None" "parsePath (escape_dots path) \<noteq> None" "parent_of path \<noteq> []" by blast
  then show ?case
  proof cases
    case 1
    then show ?thesis using less.prems(1) labelled_ancestors [OF less.prems(1), of path]
      by (auto simp: getOrCreateBlock_eq [of path])
  next
    case 2
    then show ?thesis using path_ok_parent [of path] by (simp add: getOrCreateBlock_eq [of path])
  next
    case 3
    then have ok: "path_ok path" using path_ok_parent [of path] by simp
    obtain x cs' where "add_path path [] (cs, m) = (x, cs', m(path \<mapsto> x))" "labelled_by ks (m(path \<mapsto> x)) cs'"
      using add_path_spec [OF less.prems(1) 3(1) ok, of "[]"] 3(1,3) less.prems(2) by auto
    then show ?thesis using 3 ok by (simp add: getOrCreateBlock_eq [of path] set_ancestors [of path] del: dom_fun_upd) auto
  next
    case 4
    note shorter = parent_of_shorter [OF 4(3)]
    note IH = less.hyps [OF shorter less.prems]
    show ?thesis
    proof (cases "getOrCreateBlock (parent_of path) (cs, m)")
      case None
      then show ?thesis using 4 IH path_ok_parent [of path] by (simp add: getOrCreateBlock_eq [of path])
    next
      case (Some r)
      then obtain u cs1 m1 where r: "getOrCreateBlock (parent_of path) (cs, m) = Some (u, cs1, m1)" by (cases r) auto
      then have I: "path_ok (parent_of path)" "m1 (parent_of path) = Some u" "labelled_by ks m1 cs1"
        "dom m1 = dom m \<union> set (ancestors (parent_of path))" using IH by simp_all
      have "path \<notin> set (ancestors (parent_of path))" using ancestors_length shorter by fastforce
      then have new: "m1 path = None" using I(4) 4(1) by (metis Un_iff domIff)
      have ok: "path_ok path" using I(1) 4(2) path_ok_parent [of path] by simp
      obtain x cs' where "add_path path u (cs1, m1) = (x, cs', m1(path \<mapsto> x))" "labelled_by ks (m1(path \<mapsto> x)) cs'"
        using add_path_spec [OF I(3) new ok, of u] 4(1,3) I(2) less.prems(2) by auto
      then show ?thesis
        using 4 ok I(4) by (simp add: getOrCreateBlock_eq [of path] r set_ancestors [of path] del: dom_fun_upd) auto
    qed
  qed
qed

text \<open>The arguments of a value, and the keys of the block of a path once all labels are in.\<close>

definition label_args :: "(string \<Rightarrow> string result) \<Rightarrow> string \<Rightarrow> string list option" where
  "label_args pv value =
     (case pv value of Inl e \<Rightarrow> None
      | Inr t \<Rightarrow> (case parseArgs t of Inl e \<Rightarrow> None | Inr args \<Rightarrow> Some args))"

definition label_keys :: "(string \<Rightarrow> string result) \<Rightarrow> (string \<times> string) list \<Rightarrow> string \<Rightarrow> string list" where
  "label_keys pv labels path =
     path_keys path @
     (case map_of labels path of None \<Rightarrow> [] | Some v \<Rightarrow> (case label_args pv v of None \<Rightarrow> [] | Some args \<Rightarrow> args))"

definition label_ok :: "(string \<Rightarrow> string result) \<Rightarrow> string \<times> string \<Rightarrow> bool" where
  "label_ok pv lv \<longleftrightarrow> path_ok (fst lv) \<and> label_args pv (snd lv) \<noteq> None"

definition label_paths :: "(string \<times> string) list \<Rightarrow> string set" where
  "label_paths labels = (\<Union>lv \<in> set labels. set (ancestors (fst lv)))"

lemma label_keys_Cons:
  assumes "map_of labels (fst lv) = None" "label_args pv (snd lv) = Some args"
  shows "label_keys pv (lv # labels) = (label_keys pv labels)(fst lv := label_keys pv labels (fst lv) @ args)"
  using assms by (cases lv) (auto simp: label_keys_def)

lemma label_paths_simps [simp]:
  "label_paths [] = {}" "label_paths (lv # labels) = set (ancestors (fst lv)) \<union> label_paths labels"
  "label_paths (xs @ ys) = label_paths xs \<union> label_paths ys" "label_paths (rev xs) = label_paths xs"
  by (auto simp: label_paths_def)

lemma label_keys_new:
  assumes "dom m = label_paths labels" "m q = None"
  shows "label_keys pv labels q = path_keys q"
proof -
  have "q \<notin> label_paths labels" using assms by blast
  then have "q \<notin> fst ` set labels" by (force simp: label_paths_def)
  then have "map_of labels q = None" by (simp add: map_of_eq_None_iff)
  then show ?thesis by (simp add: label_keys_def)
qed

lemma add_label_spec:
  assumes l: "labelled_by (label_keys pv past) m cs" and dom: "dom m = label_paths past"
    and new: "fst lv \<notin> fst ` set past"
  shows "case add_label pv lv (cs, m) of
      Inl e \<Rightarrow> \<not> label_ok pv lv \<and> (e = NilMatch \<longleftrightarrow> \<not> path_ok (fst lv))
    | Inr (cs', m') \<Rightarrow> label_ok pv lv \<and> labelled_by (label_keys pv (lv # past)) m' cs' \<and>
        dom m' = label_paths (lv # past)"
proof (cases "getOrCreateBlock (fst lv) (cs, m)")
  case None
  then show ?thesis
    using getOrCreateBlock_spec [OF l label_keys_new [OF dom], of "fst lv"]
    by (simp add: add_label_def label_ok_def)
next
  case (Some r)
  obtain x cs1 m1 where r: "getOrCreateBlock (fst lv) (cs, m) = Some (x, cs1, m1)" using Some by (cases r) auto
  have g: "path_ok (fst lv)" "m1 (fst lv) = Some x" "labelled_by (label_keys pv past) m1 cs1"
      "dom m1 = dom m \<union> set (ancestors (fst lv))"
    using getOrCreateBlock_spec [OF l label_keys_new [OF dom], of "fst lv"] r by simp_all
  show ?thesis
  proof (cases "label_args pv (snd lv)")
    case None
    then show ?thesis using r g(1)
      by (auto simp: add_label_def label_ok_def label_args_def split: sum.splits)
  next
    case (Some args)
    have "labelled_by (label_keys pv (lv # past)) m1 (AddKeysAt x args cs1)"
      using container_store.labelled_add_keys [OF conjunct1 [OF g(3)] g(2), of args] g(3) new Some
      by (simp add: label_keys_Cons map_of_eq_None_iff)
    moreover have "add_label pv lv (cs, m) = Inr (AddKeysAt x args cs1, m1)"
      using r Some by (auto simp: add_label_def label_args_def split: sum.splits)
    ultimately show ?thesis using g(1,4) dom Some by (auto simp: label_ok_def)
  qed
qed

lemma add_labels_spec:
  assumes "labelled_by (label_keys pv past) m cs" and "dom m = label_paths past"
    and "distinct (map fst (rev labels @ past))"
  shows "case add_labels pv labels (cs, m) of
      Inl e \<Rightarrow> \<exists>lv. find (\<lambda>lv. \<not> label_ok pv lv) labels = Some lv \<and> (e = NilMatch \<longleftrightarrow> \<not> path_ok (fst lv))
    | Inr (cs', m') \<Rightarrow> (\<forall>lv \<in> set labels. label_ok pv lv) \<and>
        labelled_by (label_keys pv (rev labels @ past)) m' cs' \<and> dom m' = label_paths (rev labels @ past)"
  using assms
proof (induction labels arbitrary: past m cs)
  case Nil
  then show ?case by simp
next
  case (Cons lv labels)
  have new: "fst lv \<notin> fst ` set past" using Cons.prems(3) by auto
  note step = add_label_spec [OF Cons.prems(1,2) new]
  show ?case
  proof (cases "add_label pv lv (cs, m)")
    case (Inl e)
    then show ?thesis using step by simp
  next
    case (Inr s)
    obtain cs1 m1 where s: "s = (cs1, m1)" by (cases s)
    have 1: "label_ok pv lv" "labelled_by (label_keys pv (lv # past)) m1 cs1" "dom m1 = label_paths (lv # past)"
      using step Inr s by simp_all
    have "distinct (map fst (rev labels @ lv # past))" using Cons.prems(3) by auto
    from Cons.IH [OF 1(2,3) this] show ?thesis
      using Inr s 1(1) by (auto split: sum.splits simp del: label_paths_simps)
  qed
qed

lemma FromLabels_spec:
  assumes "distinct (map fst labels)"
  shows "case FromLabels pv labels of
      Inl e \<Rightarrow> \<exists>lv. find (\<lambda>lv. \<not> label_ok pv lv) labels = Some lv \<and> (e = NilMatch \<longleftrightarrow> \<not> path_ok (fst lv))
    | Inr cs \<Rightarrow> (\<forall>lv \<in> set labels. label_ok pv lv) \<and>
        (\<exists>m. labelled_by (label_keys pv labels) m cs \<and> dom m = label_paths labels)"
proof -
  have "map_of (rev labels) = map_of labels" using assms by (subst map_of_inject_set) (simp_all flip: rev_map)
  then have keys: "label_keys pv (rev labels @ []) = label_keys pv labels" by (auto simp: label_keys_def)
  have start: "labelled_by (label_keys pv []) Map.empty CreateContainer"
    using container_store.labelled_new by simp
  have "distinct (map fst (rev labels @ []))" using assms by (simp flip: rev_map)
  from add_labels_spec [OF start _ this] show ?thesis
    unfolding keys by (auto simp: FromLabels_def split: sum.splits)
qed

lemma path_ok_not_empty: "path_ok p \<Longrightarrow> p \<noteq> []"
  using parsePath_empty path_ok_parent [of p] by auto

lemma FromLabels_perm:
  assumes "distinct (map fst labels)" "mset labels = mset labels'" "FromLabels pv labels = Inr cs"
  shows "\<exists>ds. FromLabels pv labels' = Inr ds \<and> container_perm cs ds"
proof -
  have set: "set labels = set labels'" using assms(2) by (metis set_mset_mset)
  have d: "distinct (map fst labels')"
    using assms(1,2) by (metis distinct_count_atmost_1 mset_map set_map set)
  have keys: "label_keys pv labels = label_keys pv labels'"
    using map_of_inject_set [OF assms(1) d] set by (auto simp: label_keys_def)
  have paths: "label_paths labels = label_paths labels'" by (simp add: label_paths_def set)
  obtain m where ok: "\<forall>lv \<in> set labels. label_ok pv lv"
      and m: "labelled_by (label_keys pv labels) m cs" "dom m = label_paths labels"
    using FromLabels_spec [OF assms(1), of pv] assms(3) by auto
  then obtain ds where ds: "FromLabels pv labels' = Inr ds"
    using FromLabels_spec [OF d, of pv] set by (cases "FromLabels pv labels'") (auto simp: find_Some_iff)
  then obtain m' where m': "labelled_by (label_keys pv labels') m' ds" "dom m' = label_paths labels'"
    using FromLabels_spec [OF d, of pv] by auto
  have root: "[] \<notin> dom m" using m(1) path_ok_not_empty by blast
  have "container_perm cs ds"
    by (rule labelled_perm [of parent_of path_order "label_keys pv labels" m cs m' ds])
      (use m m' keys paths root in auto)
  with ds show ?thesis by blast
qed

end
