(* ===== verification/Docker.thy ===== *)
theory Docker
  imports IPAddress
begin

text \<open>
  What the program knows of Docker: the data of the SDK as far as the program reads it, the client
  interface of \<open>docker/client.go\<close>, the client that talks to a remote host through a Hawser agent
  (\<open>docker/remote.go\<close>), and the options of \<open>config/options.go\<close>. A client answers according to the
  state of its host during one computation. The pointers Docker always fills (network settings,
  endpoint settings) are values, and a Go map is the list of its entries in iteration order.
\<close>

type_synonym labels = "(string \<times> string) list"

section \<open>Data\<close>

record endpoint =
  ep_NetworkID :: string
  ep_IPAddress :: string

record docker_container =
  dc_ID :: string
  dc_Labels :: labels
  dc_Networks :: "(string \<times> endpoint) list"

record virtual_ip =
  vip_NetworkID :: string
  vip_Addr :: string

record service =
  sv_ID :: string
  sv_Name :: string
  sv_Labels :: labels
  sv_VirtualIPs :: "virtual_ip list"

record attachment =
  at_NetworkID :: string
  at_NetworkName :: string
  at_Addresses :: "string list"

record task =
  task_State :: string
  task_Attachments :: "attachment list"

record docker_network =
  nw_ID :: string
  nw_Name :: string
  nw_Ingress :: bool

record swarm_config =
  cfg_ID :: string
  cfg_Name :: string
  cfg_Labels :: labels

text \<open>The result of inspecting a container: the labels are missing if \<open>Config\<close> is nil.\<close>

record container_json =
  cj_Labels :: "labels option"
  cj_NetworkIDs :: "string list"

section \<open>Clients\<close>

text \<open>The SDK's client. \<open>TaskList\<close> is asked for the tasks of one service with the desired state
  \<open>running\<close>, \<open>Info\<close> gives the local node state, and inspecting a config gives its data.\<close>

record sdk_client =
  sdk_ContainerList :: "bool \<Rightarrow> docker_container list result"
  sdk_ServiceList :: "service list result"
  sdk_TaskList :: "string \<Rightarrow> task list result"
  sdk_Info :: "string result"
  sdk_ContainerInspect :: "string \<Rightarrow> container_json result"
  sdk_NetworkInspect :: "string \<Rightarrow> docker_network result"
  sdk_NetworkList :: "docker_network list result"
  sdk_ConfigList :: "swarm_config list result"
  sdk_ConfigInspect :: "string \<Rightarrow> string result"

record docker_client =
  ContainerList :: "bool \<Rightarrow> docker_container list result"
  ServiceList :: "service list result"
  TaskList :: "string \<Rightarrow> task list result"
  Info :: "string result"
  ContainerInspect :: "string \<Rightarrow> container_json result"
  NetworkInspect :: "string \<Rightarrow> docker_network result"
  NetworkList :: "docker_network list result"
  ConfigList :: "swarm_config list result"
  ConfigInspectWithRaw :: "string \<Rightarrow> string result"
  HostIP :: string

definition WrapClient :: "sdk_client \<Rightarrow> docker_client" where
  "WrapClient sdk =
     \<lparr>ContainerList = sdk_ContainerList sdk, ServiceList = sdk_ServiceList sdk, TaskList = sdk_TaskList sdk,
      Info = sdk_Info sdk, ContainerInspect = sdk_ContainerInspect sdk, NetworkInspect = sdk_NetworkInspect sdk,
      NetworkList = sdk_NetworkList sdk, ConfigList = sdk_ConfigList sdk,
      ConfigInspectWithRaw = sdk_ConfigInspect sdk, HostIP = []\<rparr>"

text \<open>
  A remote client: the host name of the parsed URL is its host IP. \<open>url.Parse\<close> with \<open>Hostname\<close>, and
  \<open>NewClientWithOpts\<close> of the SDK for a host and a transport, are parameters. The two errors carry the
  URL, which the code quotes in the message, and the error they wrap.
\<close>

datatype remote_error = Invalid_URL string string | No_client string string

definition NewRemoteClient ::
  "(string \<Rightarrow> string result) \<Rightarrow> (string \<Rightarrow> string \<Rightarrow> sdk_client result) \<Rightarrow> string \<Rightarrow> string \<Rightarrow> remote_error + docker_client" where
  "NewRemoteClient parse_hostname new_sdk_client rawURL token =
     (case parse_hostname rawURL of
        Inl err \<Rightarrow> Inl (Invalid_URL rawURL err)
      | Inr hostIP \<Rightarrow>
          (case new_sdk_client rawURL token of
             Inl err \<Rightarrow> Inl (No_client rawURL err)
           | Inr sdk \<Rightarrow> Inr ((WrapClient sdk)\<lparr>HostIP := hostIP\<rparr>)))"

text \<open>The transport of a remote client adds the token to the headers of a copy of the request.\<close>

definition hawserTokenHeader :: string where
  "hawserTokenHeader = ''X-Hawser-Token''"

definition hawser_RoundTrip ::
  "string \<Rightarrow> ((string \<rightharpoonup> string list) \<Rightarrow> 'r) \<Rightarrow> (string \<rightharpoonup> string list) \<Rightarrow> 'r" where
  "hawser_RoundTrip token base headers = base (headers(hawserTokenHeader \<mapsto> [token]))"

section \<open>Options\<close>

text \<open>Durations are in nanoseconds, and a mode is a set of bits.\<close>

record Options =
  CaddyfilePath :: string
  EnvFile :: string
  AdminListen :: string
  DockerSockets :: "string list"
  DockerCertsPath :: "string list"
  DockerAPIsVersion :: "string list"
  LabelPrefix :: string
  ControlledServersLabel :: string
  ProxyServiceTasks :: bool
  ProcessCaddyfile :: bool
  ScanStoppedContainers :: bool
  PollingInterval :: int
  EventThrottleInterval :: int
  Mode :: int
  Secret :: string
  ControllerNetwork :: "IPNet option"
  IngressNetworks :: "string list"

definition Controller :: int where
  "Controller = 1"

definition Server :: int where
  "Server = 2"

definition Standalone :: int where
  "Standalone = or Controller Server"

end
