(* ===== verification/Generator.thy ===== *)
theory Generator
  imports Docker Regex Labels Merge Process
begin

text \<open>
  The generator of the Caddyfile (package \<open>generator\<close>). Its functions get the Docker clients, that
  is, what each host answers during the generation, as an argument. Expanding a template
  (package \<open>text/template\<close> with the functions of the module \<open>sprig\<close>) is the parameter \<open>expand\<close>: it
  takes the data, the functions this program adds and the text. Reading a file is the parameter
  \<open>readFile\<close>, the clock is \<open>now\<close>. What is only logged is left out.
\<close>

section \<open>Targets\<close>

record CaddyfileGenerator =
  options :: Options
  labelRegex :: regex
  ingressNetworks :: "string \<rightharpoonup> bool"
  swarmIsAvailable :: "bool list"
  swarmIsAvailableTime :: "int option"

definition IngressNetworkLabel :: string where
  "IngressNetworkLabel = ''caddy_ingress_network''"

definition swarmAvailabilityCacheInterval :: int where
  "swarmAvailabilityCacheInterval = 60000000000"

definition label_regex :: "string \<Rightarrow> regex" where
  "label_regex prefix =
     Concat (QuoteMeta prefix)
       (Concat (Optional (Capture 1 (Concat (Literal CHR ''_'') (Plus Digit))))
         (Capture 2 (Alt (Literal CHR ''.'') EndText)))"

definition CreateGenerator :: "docker_client list \<Rightarrow> Options \<Rightarrow> CaddyfileGenerator" where
  "CreateGenerator dockerClients opts =
     \<lparr>options = opts, labelRegex = label_regex (LabelPrefix opts), ingressNetworks = Map.empty,
      swarmIsAvailable = replicate (length dockerClients) False, swarmIsAvailableTime = None\<rparr>"

definition is_ingress :: "CaddyfileGenerator \<Rightarrow> string \<Rightarrow> bool" where
  "is_ingress g network = (case ingressNetworks g network of None \<Rightarrow> False | Some b \<Rightarrow> b)"

definition include_network ::
  "CaddyfileGenerator \<Rightarrow> labels \<Rightarrow> bool \<Rightarrow> string \<Rightarrow> string \<Rightarrow> bool" where
  "include_network g labels onlyIngressIps name networkID =
     (if \<not> onlyIngressIps then True
      else case map_of labels IngressNetworkLabel of
        Some ingressNetworkFromLabel \<Rightarrow> name = ingressNetworkFromLabel
      | None \<Rightarrow> is_ingress g networkID)"

definition getContainerIPAddresses :: "CaddyfileGenerator \<Rightarrow> docker_container \<Rightarrow> bool \<Rightarrow> string list result" where
  "getContainerIPAddresses g c onlyIngressIps =
     Inr (map (\<lambda>(networkName, network). ep_IPAddress network)
       (filter (\<lambda>(networkName, network).
          include_network g (dc_Labels c) onlyIngressIps networkName (ep_NetworkID network)) (dc_Networks c)))"

definition getServiceVirtualIps :: "CaddyfileGenerator \<Rightarrow> service \<Rightarrow> bool \<Rightarrow> string list result" where
  "getServiceVirtualIps g s onlyIngressIps =
     Inr (map vip_Addr
       (filter (\<lambda>v. \<not> onlyIngressIps \<or> is_ingress g (vip_NetworkID v)) (sv_VirtualIPs s)))"

text \<open>The address of an attachment without its mask. The error of \<open>ParseCIDR\<close> is dropped, and the
  nil address prints as \<open><nil>\<close>.\<close>

definition attachment_ip :: "string \<Rightarrow> string" where
  "attachment_ip address = IP_String (case ParseCIDR address of None \<Rightarrow> [] | Some (ipAddress, _) \<Rightarrow> ipAddress)"

definition task_ips :: "CaddyfileGenerator \<Rightarrow> service \<Rightarrow> bool \<Rightarrow> task \<Rightarrow> string list" where
  "task_ips g s onlyIngressIps t =
     (if task_State t = ''running'' then
        concat (map (\<lambda>a. map attachment_ip (at_Addresses a))
          (filter (\<lambda>a. include_network g (sv_Labels s) onlyIngressIps (at_NetworkName a) (at_NetworkID a))
            (task_Attachments t)))
      else [])"

fun getServiceTasksIps ::
  "docker_client list \<Rightarrow> CaddyfileGenerator \<Rightarrow> service \<Rightarrow> bool \<Rightarrow> string list result" where
  "getServiceTasksIps [] g s onlyIngressIps = Inr []"
| "getServiceTasksIps (dockerClient # cs) g s onlyIngressIps =
     (case TaskList dockerClient (sv_ID s) of
        Inl err \<Rightarrow> Inl err
      | Inr tasks \<Rightarrow>
          (case getServiceTasksIps cs g s onlyIngressIps of
             Inl err \<Rightarrow> Inl err
           | Inr ips \<Rightarrow> Inr (concat (map (task_ips g s onlyIngressIps) tasks) @ ips)))"

definition getServiceProxyTargets ::
  "docker_client list \<Rightarrow> CaddyfileGenerator \<Rightarrow> service \<Rightarrow> bool \<Rightarrow> string list result" where
  "getServiceProxyTargets clients g s onlyIngressIps =
     (if ProxyServiceTasks (options g) then getServiceTasksIps clients g s onlyIngressIps
      else case getServiceVirtualIps g s onlyIngressIps of
        Inl err \<Rightarrow> Inl err
      | Inr _ \<Rightarrow> Inr [sv_Name s])"

section \<open>Labels to a container\<close>

text \<open>The arguments of the template function \<open>upstreams\<close>: protocols, ports, or anything else.\<close>

datatype upstream_option = Protocol_option string | Port_option int | Other_option

fun apply_options :: "upstream_option list \<Rightarrow> string \<Rightarrow> string" where
  "apply_options [] target = target"
| "apply_options (Protocol_option protocol # params) target = apply_options params (protocol @ ''://'' @ target)"
| "apply_options (Port_option port # params) target = apply_options params (target @ '':'' @ Itoa port)"
| "apply_options (Other_option # params) target = apply_options params target"

definition upstreams :: "string list result \<Rightarrow> upstream_option list \<Rightarrow> string result" where
  "upstreams getTargets params =
     (case getTargets of
        Inl err \<Rightarrow> Inl err
      | Inr targets \<Rightarrow> Inr (Join (sort (map (apply_options params) (sort targets))) '' ''))"

record func_map =
  fm_upstreams :: "upstream_option list \<Rightarrow> string result"
  fm_http :: string
  fm_https :: string
  fm_h2c :: string

datatype template_data = ContainerData docker_container | ServiceData service

type_synonym expander = "template_data \<Rightarrow> func_map \<Rightarrow> string \<Rightarrow> string result"

definition labelsToCaddyfile ::
  "expander \<Rightarrow> labels \<Rightarrow> template_data \<Rightarrow> string list result \<Rightarrow> labels_error + container" where
  "labelsToCaddyfile expand labels templateData getTargets =
     FromLabels (expand templateData
       \<lparr>fm_upstreams = upstreams getTargets, fm_http = ''http'', fm_https = ''https'', fm_h2c = ''h2c''\<rparr>) labels"

text \<open>The filtered labels are a new map: they come in the order in which that map is iterated, which
  is the order of the given labels.\<close>

definition filterLabels :: "CaddyfileGenerator \<Rightarrow> labels \<Rightarrow> labels" where
  "filterLabels g labels =
     map (\<lambda>(label, value). (Replace1 label (LabelPrefix (options g)) ''caddy'', value))
       (filter (\<lambda>(label, value). MatchString (labelRegex g) label) labels)"

definition getContainerCaddyfile :: "expander \<Rightarrow> CaddyfileGenerator \<Rightarrow> docker_container \<Rightarrow> labels_error + container" where
  "getContainerCaddyfile expand g c =
     labelsToCaddyfile expand (filterLabels g (dc_Labels c)) (ContainerData c) (getContainerIPAddresses g c True)"

definition getServiceCaddyfile ::
  "expander \<Rightarrow> docker_client list \<Rightarrow> CaddyfileGenerator \<Rightarrow> service \<Rightarrow> labels_error + container" where
  "getServiceCaddyfile expand clients g s =
     labelsToCaddyfile expand (filterLabels g (sv_Labels s)) (ServiceData s) (getServiceProxyTargets clients g s True)"

end
