(* ===== verification/Generate.thy ===== *)
theory Generate
  imports Generator
begin

text \<open>
  Generating the whole Caddyfile (\<open>GenerateCaddyfile\<close>, \<open>getIngressNetworks\<close> and
  \<open>checkSwarmAvailability\<close> of \<open>generator/generator.go\<close>). A panic while labels are converted ends
  the computation and is the outcome \<open>None\<close>.
\<close>

section \<open>What is known of the networks and of the swarm\<close>

definition mark_network :: "docker_network \<Rightarrow> (string \<rightharpoonup> bool) \<Rightarrow> (string \<rightharpoonup> bool)" where
  "mark_network n m = m(nw_ID n \<mapsto> True, nw_Name n \<mapsto> True)"

fun named_networks :: "string list \<Rightarrow> docker_network list \<Rightarrow> (string \<rightharpoonup> bool) \<Rightarrow> (string \<rightharpoonup> bool)" where
  "named_networks names [] m = m"
| "named_networks names (n # ns) m =
     named_networks names ns
       (if nw_Ingress n then m
        else fold (\<lambda>name m. if nw_Name n = name then mark_network n m else m) names m)"

fun attached_networks :: "docker_client \<Rightarrow> string list \<Rightarrow> (string \<rightharpoonup> bool) \<Rightarrow> (string \<rightharpoonup> bool) result" where
  "attached_networks dockerClient [] m = Inr m"
| "attached_networks dockerClient (networkID # ns) m =
     (case NetworkInspect dockerClient networkID of
        Inl err \<Rightarrow> Inl err
      | Inr networkInfo \<Rightarrow>
          attached_networks dockerClient ns (if nw_Ingress networkInfo then m else mark_network networkInfo m))"

definition client_networks ::
  "Options \<Rightarrow> string result \<Rightarrow> docker_client \<Rightarrow> (string \<rightharpoonup> bool) \<Rightarrow> (string \<rightharpoonup> bool) result" where
  "client_networks opts currentContainerID dockerClient m =
     (if length (IngressNetworks opts) > 0 then
        (case NetworkList dockerClient of
           Inl err \<Rightarrow> Inl err
         | Inr networks \<Rightarrow> Inr (named_networks (IngressNetworks opts) networks m))
      else
        case currentContainerID of
          Inl err \<Rightarrow> Inl err
        | Inr containerID \<Rightarrow>
            (case ContainerInspect dockerClient containerID of
               Inl err \<Rightarrow> Inl err
             | Inr container \<Rightarrow> attached_networks dockerClient (cj_NetworkIDs container) m))"

fun ingress_loop ::
  "Options \<Rightarrow> string result \<Rightarrow> docker_client list \<Rightarrow> (string \<rightharpoonup> bool) \<Rightarrow> (string \<rightharpoonup> bool) result" where
  "ingress_loop opts currentContainerID [] m = Inr m"
| "ingress_loop opts currentContainerID (dockerClient # cs) m =
     (case client_networks opts currentContainerID dockerClient m of
        Inl err \<Rightarrow> Inl err
      | Inr m \<Rightarrow> ingress_loop opts currentContainerID cs m)"

definition getIngressNetworks ::
  "string result \<Rightarrow> docker_client list \<Rightarrow> CaddyfileGenerator \<Rightarrow> (string \<rightharpoonup> bool) result" where
  "getIngressNetworks currentContainerID clients g =
     ingress_loop (options g) currentContainerID clients Map.empty"

definition checkSwarmAvailability :: "docker_client list \<Rightarrow> CaddyfileGenerator \<Rightarrow> CaddyfileGenerator" where
  "checkSwarmAvailability clients g =
     g\<lparr>swarmIsAvailable :=
         map (\<lambda>c. case Info c of Inl err \<Rightarrow> False | Inr localNodeState \<Rightarrow> localNodeState = ''active'') clients\<rparr>"

section \<open>Collecting the sources\<close>

record generation =
  caddyfileBlock :: container
  controlledServers :: "string list"

definition merge_text :: "string \<Rightarrow> generation \<Rightarrow> generation" where
  "merge_text dat s =
     (case Unmarshal dat of
        Inl err \<Rightarrow> s
      | Inr block \<Rightarrow> s\<lparr>caddyfileBlock := Merge (caddyfileBlock s) block\<rparr>)"

definition add_base_file :: "(string \<Rightarrow> string result) \<Rightarrow> Options \<Rightarrow> generation \<Rightarrow> generation" where
  "add_base_file readFile opts s =
     (if CaddyfilePath opts \<noteq> [] then
        (case readFile (CaddyfilePath opts) of Inl err \<Rightarrow> s | Inr dat \<Rightarrow> merge_text dat s)
      else s)"

fun add_configs :: "Options \<Rightarrow> docker_client \<Rightarrow> swarm_config list \<Rightarrow> generation \<Rightarrow> generation" where
  "add_configs opts dockerClient [] s = s"
| "add_configs opts dockerClient (config # configs) s =
     add_configs opts dockerClient configs
       (if map_of (cfg_Labels config) (LabelPrefix opts) \<noteq> None then
          (case ConfigInspectWithRaw dockerClient (cfg_ID config) of Inl err \<Rightarrow> s | Inr dat \<Rightarrow> merge_text dat s)
        else s)"

definition add_servers :: "Options \<Rightarrow> string list result \<Rightarrow> generation \<Rightarrow> generation" where
  "add_servers opts ips s =
     (case ips of
        Inl err \<Rightarrow> s
      | Inr ips \<Rightarrow>
          s\<lparr>controlledServers := controlledServers s @
              filter (\<lambda>ip. case ControllerNetwork opts of None \<Rightarrow> True | Some n \<Rightarrow> Contains n (ParseIP ip)) ips\<rparr>)"

definition merge_labels :: "labels_error + container \<Rightarrow> generation \<Rightarrow> generation option" where
  "merge_labels r s =
     (case r of
        Inl NilMatch \<Rightarrow> None
      | Inl _ \<Rightarrow> Some s
      | Inr block \<Rightarrow> Some (s\<lparr>caddyfileBlock := Merge (caddyfileBlock s) block\<rparr>))"

definition is_controlled :: "Options \<Rightarrow> labels \<Rightarrow> bool" where
  "is_controlled opts labels \<longleftrightarrow> map_of labels (ControlledServersLabel opts) \<noteq> None"

definition add_container ::
  "expander \<Rightarrow> CaddyfileGenerator \<Rightarrow> docker_container \<Rightarrow> generation \<Rightarrow> generation option" where
  "add_container expand g c s =
     merge_labels (getContainerCaddyfile expand g c)
       (if is_controlled (options g) (dc_Labels c)
        then add_servers (options g) (getContainerIPAddresses g c False) s else s)"

definition add_service ::
  "expander \<Rightarrow> docker_client list \<Rightarrow> CaddyfileGenerator \<Rightarrow> service \<Rightarrow> generation \<Rightarrow> generation option" where
  "add_service expand clients g sv s =
     merge_labels (getServiceCaddyfile expand clients g sv)
       (if is_controlled (options g) (sv_Labels sv)
        then add_servers (options g) (getServiceTasksIps clients g sv False) s else s)"

text \<open>A loop whose body can panic.\<close>

fun each :: "('a \<Rightarrow> 's \<Rightarrow> 's option) \<Rightarrow> 'a list \<Rightarrow> 's \<Rightarrow> 's option" where
  "each body [] s = Some s"
| "each body (x # xs) s = (case body x s of None \<Rightarrow> None | Some s \<Rightarrow> each body xs s)"

definition add_client ::
  "expander \<Rightarrow> docker_client list \<Rightarrow> CaddyfileGenerator \<Rightarrow> docker_client \<times> bool \<Rightarrow> generation \<Rightarrow> generation option" where
  "add_client expand clients g ca s =
     (case ca of (dockerClient, swarm) \<Rightarrow>
      let s = (if swarm then
                 (case ConfigList dockerClient of
                    Inl err \<Rightarrow> s
                  | Inr configs \<Rightarrow> add_configs (options g) dockerClient configs s)
               else s) in
      case (case ContainerList dockerClient (ScanStoppedContainers (options g)) of
              Inl err \<Rightarrow> Some s
            | Inr containers \<Rightarrow> each (add_container expand g) containers s) of
        None \<Rightarrow> None
      | Some s \<Rightarrow>
          if swarm then
            (case ServiceList dockerClient of
               Inl err \<Rightarrow> Some s
             | Inr services \<Rightarrow> each (add_service expand clients g) services s)
          else Some s)"

section \<open>GenerateCaddyfile\<close>

text \<open>Global blocks go to a container of their own; a block is removed by its pointer, here its tag.\<close>

fun split_globals :: "tagged list \<Rightarrow> container \<Rightarrow> tagged list \<Rightarrow> container \<times> tagged list" where
  "split_globals [] globalCaddyfile children = (globalCaddyfile, children)"
| "split_globals ((n, b) # bs) globalCaddyfile children =
     (if IsGlobalBlock b then split_globals bs (AddBlock b globalCaddyfile) (Remove n children)
      else split_globals bs globalCaddyfile children)"

definition caddyfile_text :: "(string \<Rightarrow> string option) \<Rightarrow> Options \<Rightarrow> container \<Rightarrow> string" where
  "caddyfile_text Adapt opts cs =
     (let children = enumerate 0 cs;
          (globalCaddyfile, rest) = split_globals children CreateContainer children;
          content = MarshalContainer globalCaddyfile @ MarshalContainer (map snd rest);
          content = (if ProcessCaddyfile opts then fst (Process Adapt content) else content)
      in if length content = 0 then ''# Empty caddyfile'' else content)"

definition refresh ::
  "string result \<Rightarrow> int \<Rightarrow> docker_client list \<Rightarrow> CaddyfileGenerator \<Rightarrow> CaddyfileGenerator" where
  "refresh currentContainerID now clients g =
     (let g = (case getIngressNetworks currentContainerID clients g of
                 Inl err \<Rightarrow> g
               | Inr m \<Rightarrow> g\<lparr>ingressNetworks := m\<rparr>)
      in if (case swarmIsAvailableTime g of None \<Rightarrow> True | Some t \<Rightarrow> now - t > swarmAvailabilityCacheInterval)
         then (checkSwarmAvailability clients g)\<lparr>swarmIsAvailableTime := Some now\<rparr>
         else g)"

definition GenerateCaddyfile ::
  "(string \<Rightarrow> string option) \<Rightarrow> expander \<Rightarrow> (string \<Rightarrow> string result) \<Rightarrow> string result \<Rightarrow> int \<Rightarrow>
   docker_client list \<Rightarrow> CaddyfileGenerator \<Rightarrow> ((string \<times> string list) \<times> CaddyfileGenerator) option" where
  "GenerateCaddyfile Adapt expand readFile currentContainerID now clients g =
     (let g = refresh currentContainerID now clients g;
          s = add_base_file readFile (options g) \<lparr>caddyfileBlock = CreateContainer, controlledServers = []\<rparr> in
      case each (add_client expand clients g) (zip clients (swarmIsAvailable g)) s of
        None \<Rightarrow> None
      | Some s \<Rightarrow>
          Some ((caddyfile_text Adapt (options g) (caddyfileBlock s),
                 controlledServers s @ (if and (Mode (options g)) Server = Server then [''localhost''] else [])), g))"

end
