(* ===== verification/GenerateLaws.thy ===== *)
theory GenerateLaws
  imports Generate RoundTrip
begin

text \<open>
  What the generator computes: the merge of its sources in order, the text it writes for the
  merged container, the labels it selects, and the upstreams it lists.
\<close>

section \<open>The text of the merged container\<close>

lemma IsGlobalBlock_sort_block [simp]: "IsGlobalBlock (sort_block b) = IsGlobalBlock b"
  by (simp add: IsGlobalBlock_def)

lemma global_first: "IsGlobalBlock a \<Longrightarrow> \<not> IsGlobalBlock b \<Longrightarrow> a \<le> b"
  unfolding less_eq_block_def by (subst compare_blocks_chain) (simp add: first_of_def cmp_of_def)

lemma sort_container_globals:
  "sort_container cs = sort_container (filter IsGlobalBlock cs) @ sort_container (filter (\<lambda>b. \<not> IsGlobalBlock b) cs)"
  unfolding sort_container_eq [of cs]
proof (rule properties_for_sort)
  show "mset (sort_container (filter IsGlobalBlock cs) @ sort_container (filter (\<lambda>b. \<not> IsGlobalBlock b) cs)) = mset (map sort_block cs)"
    by (simp add: mset_sort_container flip: image_mset_union)
  have s: "sorted (sort_container ds)" for ds by (subst sort_container_eq) (rule sorted_sort)
  show "sorted (sort_container (filter IsGlobalBlock cs) @ sort_container (filter (\<lambda>b. \<not> IsGlobalBlock b) cs))"
    by (simp add: sorted_append s set_sort_container) (auto intro: global_first)
qed

lemma Marshal_globals:
  "MarshalContainer (filter IsGlobalBlock cs) @ MarshalContainer (filter (\<lambda>b. \<not> IsGlobalBlock b) cs) = MarshalContainer cs"
  unfolding MarshalContainer_def sort_container_globals [of cs] by (simp add: write_container_append)

lemma split_globals_eq:
  "split_globals bs globals children =
     (globals @ filter IsGlobalBlock (map snd bs),
      filter (\<lambda>b. fst b \<notin> fst ` set (filter (\<lambda>b. IsGlobalBlock (snd b)) bs)) children)"
  by (induction bs globals children rule: split_globals.induct)
    (auto simp: AddBlock_def Remove_def intro!: filter_cong)

lemma split_globals_enumerate:
  "split_globals (enumerate 0 cs) [] (enumerate 0 cs) =
     (filter IsGlobalBlock cs, filter (\<lambda>b. \<not> IsGlobalBlock (snd b)) (enumerate 0 cs))"
proof -
  have "fst b \<in> fst ` set (filter (\<lambda>b. IsGlobalBlock (snd b)) (enumerate 0 cs)) \<longleftrightarrow> IsGlobalBlock (snd b)"
    if "b \<in> set (enumerate 0 cs)" for b
    using that by (force simp: in_set_enumerate_eq)
  then show ?thesis by (simp add: split_globals_eq cong: filter_cong)
qed

lemma map_snd_filter_enumerate: "map snd (filter (\<lambda>b. P (snd b)) (enumerate n cs)) = filter P cs"
  by (induction cs arbitrary: n) auto

lemma caddyfile_text_eq:
  "caddyfile_text Adapt opts cs =
     (let content = (if ProcessCaddyfile opts then fst (Process Adapt (MarshalContainer cs)) else MarshalContainer cs)
      in if content = [] then ''# Empty caddyfile'' else content)"
  unfolding caddyfile_text_def CreateContainer_def split_globals_enumerate Let_def prod.case
    map_snd_filter_enumerate [where P = "\<lambda>b. \<not> IsGlobalBlock b"] Marshal_globals
  by simp

section \<open>The sources and their merge\<close>

definition text_source :: "string \<Rightarrow> container list" where
  "text_source dat = (case Unmarshal dat of Inl err \<Rightarrow> [] | Inr block \<Rightarrow> [block])"

definition ok_source :: "('e + 'a list) \<Rightarrow> 'a list" where
  "ok_source r = (case r of Inl err \<Rightarrow> [] | Inr xs \<Rightarrow> xs)"

definition label_source :: "labels_error + container \<Rightarrow> container list" where
  "label_source r = (case r of Inl err \<Rightarrow> [] | Inr block \<Rightarrow> [block])"

definition base_source :: "(string \<Rightarrow> string result) \<Rightarrow> Options \<Rightarrow> container list" where
  "base_source readFile opts =
     (if CaddyfilePath opts = [] then []
      else case readFile (CaddyfilePath opts) of Inl err \<Rightarrow> [] | Inr dat \<Rightarrow> text_source dat)"

definition config_source :: "Options \<Rightarrow> docker_client \<Rightarrow> swarm_config \<Rightarrow> container list" where
  "config_source opts c config =
     (if map_of (cfg_Labels config) (LabelPrefix opts) = None then []
      else case ConfigInspectWithRaw c (cfg_ID config) of Inl err \<Rightarrow> [] | Inr dat \<Rightarrow> text_source dat)"

text \<open>The containers and services of a host that the generator visits.\<close>

definition visible_containers :: "Options \<Rightarrow> docker_client \<Rightarrow> docker_container list" where
  "visible_containers opts c = ok_source (ContainerList c (ScanStoppedContainers opts))"

definition visible_services :: "docker_client \<Rightarrow> bool \<Rightarrow> service list" where
  "visible_services c swarm = (if swarm then ok_source (ServiceList c) else [])"

definition client_sources ::
  "expander \<Rightarrow> docker_client list \<Rightarrow> CaddyfileGenerator \<Rightarrow> docker_client \<times> bool \<Rightarrow> container list" where
  "client_sources expand clients g ca =
     (case ca of (c, swarm) \<Rightarrow>
        (if swarm then concat (map (config_source (options g) c) (ok_source (ConfigList c))) else []) @
        concat (map (\<lambda>x. label_source (getContainerCaddyfile expand g x)) (visible_containers (options g) c)) @
        concat (map (\<lambda>x. label_source (getServiceCaddyfile expand clients g x)) (visible_services c swarm)))"

definition allowed_ips :: "Options \<Rightarrow> string list result \<Rightarrow> string list" where
  "allowed_ips opts ips =
     filter (\<lambda>ip. case ControllerNetwork opts of None \<Rightarrow> True | Some n \<Rightarrow> Contains n (ParseIP ip)) (ok_source ips)"

definition client_servers ::
  "docker_client list \<Rightarrow> CaddyfileGenerator \<Rightarrow> docker_client \<times> bool \<Rightarrow> string list" where
  "client_servers clients g ca =
     (case ca of (c, swarm) \<Rightarrow>
        concat (map (\<lambda>x. allowed_ips (options g) (getContainerIPAddresses g x False))
          (filter (\<lambda>x. is_controlled (options g) (dc_Labels x)) (visible_containers (options g) c))) @
        concat (map (\<lambda>x. allowed_ips (options g) (getServiceTasksIps clients g x False))
          (filter (\<lambda>x. is_controlled (options g) (sv_Labels x)) (visible_services c swarm))))"

definition client_panics ::
  "expander \<Rightarrow> docker_client list \<Rightarrow> CaddyfileGenerator \<Rightarrow> docker_client \<times> bool \<Rightarrow> bool" where
  "client_panics expand clients g ca =
     (case ca of (c, swarm) \<Rightarrow>
        (\<exists>x \<in> set (visible_containers (options g) c). getContainerCaddyfile expand g x = Inl NilMatch) \<or>
        (\<exists>x \<in> set (visible_services c swarm). getServiceCaddyfile expand clients g x = Inl NilMatch))"

text \<open>The state after a step, written with what the step adds.\<close>

definition grow :: "container list \<Rightarrow> string list \<Rightarrow> generation \<Rightarrow> generation" where
  "grow sources servers s =
     \<lparr>caddyfileBlock = foldl Merge (caddyfileBlock s) sources, controlledServers = controlledServers s @ servers\<rparr>"

lemma grow_grow [simp]: "grow a x (grow b y s) = grow (b @ a) (y @ x) s"
  by (simp add: grow_def)

lemma grow_Nil [simp]: "grow [] [] s = s"
  by (simp add: grow_def)

lemma merge_text_grow: "merge_text dat s = grow (text_source dat) [] s"
  by (simp add: merge_text_def text_source_def grow_def split: sum.split)

lemma add_base_file_grow: "add_base_file readFile opts s = grow (base_source readFile opts) [] s"
  by (simp add: add_base_file_def base_source_def merge_text_grow split: sum.split)

lemma add_configs_grow:
  "add_configs opts c configs s = grow (concat (map (config_source opts c) configs)) [] s"
  by (induction configs arbitrary: s) (auto simp: config_source_def merge_text_grow split: sum.split)

lemma add_servers_grow: "add_servers opts ips s = grow [] (allowed_ips opts ips) s"
  by (simp add: add_servers_def allowed_ips_def ok_source_def grow_def split: sum.split)

lemma merge_labels_grow:
  "merge_labels r s = (if r = Inl NilMatch then None else Some (grow (label_source r) [] s))"
  by (auto simp: merge_labels_def label_source_def grow_def split: sum.split labels_error.split)

lemma each_grow:
  assumes "\<And>x s. body x s = (if bad x then None else Some (grow (srcs x) (srvs x) s))"
  shows "each body xs s =
    (if \<exists>x \<in> set xs. bad x then None else Some (grow (concat (map srcs xs)) (concat (map srvs xs)) s))"
  by (induction xs arbitrary: s) (simp_all add: assms)

lemma concat_map_if: "concat (map (\<lambda>x. if P x then f x else []) xs) = concat (map f (filter P xs))"
  by (induction xs) auto

lemma add_container_grow:
  "add_container expand g x s =
     (if getContainerCaddyfile expand g x = Inl NilMatch then None
      else Some (grow (label_source (getContainerCaddyfile expand g x))
        (if is_controlled (options g) (dc_Labels x)
         then allowed_ips (options g) (getContainerIPAddresses g x False) else []) s))"
  by (simp add: add_container_def merge_labels_grow add_servers_grow)

lemma add_service_grow:
  "add_service expand clients g x s =
     (if getServiceCaddyfile expand clients g x = Inl NilMatch then None
      else Some (grow (label_source (getServiceCaddyfile expand clients g x))
        (if is_controlled (options g) (sv_Labels x)
         then allowed_ips (options g) (getServiceTasksIps clients g x False) else []) s))"
  by (simp add: add_service_def merge_labels_grow add_servers_grow)

lemma add_client_grow:
  "add_client expand clients g ca s =
     (if client_panics expand clients g ca then None
      else Some (grow (client_sources expand clients g ca) (client_servers clients g ca) s))"
proof -
  obtain c swarm where ca: "ca = (c, swarm)" by fastforce
  have containers: "(case ContainerList c (ScanStoppedContainers (options g)) of
          Inl err \<Rightarrow> Some s | Inr containers \<Rightarrow> each (add_container expand g) containers s) =
      each (add_container expand g) (visible_containers (options g) c) s" for s
    by (simp add: visible_containers_def ok_source_def split: sum.split)
  have services: "(if swarm then (case ServiceList c of
          Inl err \<Rightarrow> Some s | Inr services \<Rightarrow> each (add_service expand clients g) services s) else Some s) =
      each (add_service expand clients g) (visible_services c swarm) s" for s
    by (simp add: visible_services_def ok_source_def split: sum.split)
  have configs: "(if swarm then (case ConfigList c of
          Inl err \<Rightarrow> s | Inr configs \<Rightarrow> add_configs (options g) c configs s) else s) =
      grow (if swarm then concat (map (config_source (options g) c) (ok_source (ConfigList c))) else []) [] s" for s
    by (simp add: add_configs_grow ok_source_def split: sum.split)
  show ?thesis
    unfolding ca add_client_def prod.case Let_def containers services configs
    by (simp add: each_grow [OF add_container_grow] each_grow [OF add_service_grow] concat_map_if
        client_panics_def client_sources_def client_servers_def)
qed

text \<open>The whole generation: it panics if the labels of a container or service do, and otherwise
  writes the merge of the sources.\<close>

definition all_sources ::
  "expander \<Rightarrow> (string \<Rightarrow> string result) \<Rightarrow> docker_client list \<Rightarrow> CaddyfileGenerator \<Rightarrow> container list" where
  "all_sources expand readFile clients g =
     base_source readFile (options g) @
     concat (map (client_sources expand clients g) (zip clients (swarmIsAvailable g)))"

definition all_servers :: "docker_client list \<Rightarrow> CaddyfileGenerator \<Rightarrow> string list" where
  "all_servers clients g =
     concat (map (client_servers clients g) (zip clients (swarmIsAvailable g))) @
     (if and (Mode (options g)) Server = Server then [''localhost''] else [])"

lemma GenerateCaddyfile_eq:
  "GenerateCaddyfile Adapt expand readFile currentContainerID now clients g =
     (let g = refresh currentContainerID now clients g in
      if \<exists>ca \<in> set (zip clients (swarmIsAvailable g)). client_panics expand clients g ca then None
      else Some ((caddyfile_text Adapt (options g) (foldl Merge [] (all_sources expand readFile clients g)),
                  all_servers clients g), g))"
  by (simp add: GenerateCaddyfile_def Let_def each_grow [OF add_client_grow] add_base_file_grow all_sources_def all_servers_def
      grow_def CreateContainer_def)


text \<open>Nothing a source declares is lost in the merge.\<close>

lemma merge_all_extends: "extends_all cs (foldl Merge cs srcs)"
  by (induction srcs arbitrary: cs) (auto intro: extends_all_refl extends_all_trans Merge_extends(1))

lemma merge_all_covers:
  assumes "src \<in> set srcs" "b \<in> set src"
  shows "\<exists>c \<in> set (foldl Merge cs srcs). covers b c"
  using assms(1)
proof (induction srcs arbitrary: cs)
  case (Cons s srcs)
  show ?case
  proof (cases "src = s")
    case True
    then have "\<exists>c \<in> set (Merge cs s). covers b c" using Merge_covers(1) assms(2) by blast
    then show ?thesis using covers_extends_all [OF _ merge_all_extends] by simp
  qed (use Cons in simp)
qed simp

text \<open>The text of a container that has a block is not empty.\<close>

lemma write_block_nonempty: "write_block b level \<noteq> []"
  by (cases b) simp

lemma Marshal_Nil_iff: "MarshalContainer cs = [] \<longleftrightarrow> cs = []"
  using length_sort_container [of cs]
  by (cases "sort_container cs") (auto simp: MarshalContainer_def write_block_nonempty)

definition generation_panics :: "expander \<Rightarrow> docker_client list \<Rightarrow> CaddyfileGenerator \<Rightarrow> bool" where
  "generation_panics expand clients g \<longleftrightarrow> list_ex (client_panics expand clients g) (zip clients (swarmIsAvailable g))"

lemma container_source:
  assumes "i < length clients" "i < length (swarmIsAvailable g)"
    and "c \<in> set (visible_containers (options g) (clients ! i))" "getContainerCaddyfile expand g c = Inr cs"
  shows "cs \<in> set (all_sources expand readFile clients g)"
proof -
  have "(clients ! i, swarmIsAvailable g ! i) \<in> set (zip clients (swarmIsAvailable g))"
    using assms(1,2) by (auto simp: set_zip)
  moreover have "cs \<in> set (client_sources expand clients g (clients ! i, swarmIsAvailable g ! i))"
    using assms(3,4) by (force simp: client_sources_def label_source_def)
  ultimately show ?thesis by (force simp: all_sources_def)
qed

section \<open>The labels that are selected\<close>

text \<open>What may follow the prefix of a label that is selected.\<close>

definition selected_rest :: "string \<Rightarrow> bool" where
  "selected_rest rest \<longleftrightarrow>
     rest = [] \<or> hd rest = CHR ''.'' \<or>
     (\<exists>ds after. rest = CHR ''_'' # ds @ after \<and> ds \<noteq> [] \<and> list_all is_digit ds \<and>
        (after = [] \<or> hd after = CHR ''.''))"

lemma orelse_iff: "(case x of Some v \<Rightarrow> Some v | None \<Rightarrow> y) \<noteq> None \<longleftrightarrow> x \<noteq> None \<or> y \<noteq> None"
  by (cases x) auto

lemma run_label_end:
  "run_regex (Capture n (Alt (Literal CHR ''.'') EndText)) s m (\<lambda>x rest m. Some ()) \<noteq> None \<longleftrightarrow> s = [] \<or> hd s = CHR ''.''"
  by (auto split: list.split)

lemma MatchString_label_regex:
  "MatchString (label_regex prefix) label \<longleftrightarrow> (\<exists>rest. label = prefix @ rest \<and> selected_rest rest)"
proof -
  define tail where "tail = Concat (Optional (Capture 1 (Concat (Literal CHR ''_'') (Plus Digit))))
    (Capture 2 (Alt (Literal CHR ''.'') EndText))"
  have last: "run_regex (Capture 2 (Alt (Literal CHR ''.'') EndText)) y m (\<lambda>x rest m. Some ()) \<noteq> None \<longleftrightarrow>
      y = [] \<or> hd y = CHR ''.''" for y m by (rule run_label_end)
  have number: "run_regex (Concat (Literal CHR ''_'') (Plus Digit)) s m
        (\<lambda>x rest m'. run_regex (Capture 2 (Alt (Literal CHR ''.'') EndText)) rest (m'(1 \<mapsto> x)) (\<lambda>x rest m. Some ())) \<noteq> None \<longleftrightarrow>
      (\<exists>ds after. s = CHR ''_'' # ds @ after \<and> ds \<noteq> [] \<and> list_all is_digit ds \<and> (after = [] \<or> hd after = CHR ''.''))" for s m
  proof (cases s)
    case (Cons c cs)
    then show ?thesis
      using run_greedy_iff [of Digit "[]" cs "\<lambda>x rest. run_regex (Capture 2 (Alt (Literal CHR ''.'') EndText)) rest (m(1 \<mapsto> [c] @ x)) (\<lambda>x rest m. Some ())"]
      unfolding last
      by (auto simp: list_all_iff simp del: run_regex.simps(4,7))
  qed simp
  have tail: "run_regex tail s m (\<lambda>x rest m. Some ()) \<noteq> None \<longleftrightarrow> selected_rest s" for s m
    unfolding tail_def selected_rest_def run_regex.simps(5) [of "Optional r" for r]
      run_regex.simps(6) orelse_iff run_regex.simps(4) [of 1] number last by blast
  have "run_regex (Concat (QuoteMeta prefix) tail) label Map.empty (\<lambda>x rest m. Some ()) =
      (if HasPrefix label prefix then run_regex tail (drop (length prefix) label) Map.empty (\<lambda>x rest m. Some ()) else None)"
    by (simp add: run_QuoteMeta)
  then have "MatchString (label_regex prefix) label \<longleftrightarrow> HasPrefix label prefix \<and> selected_rest (drop (length prefix) label)"
    unfolding MatchString_def label_regex_def tail_def [symmetric] using tail by (cases "HasPrefix label prefix") simp_all
  then show ?thesis by (auto simp: HasPrefix_iff)
qed


lemma filterLabels_eq:
  assumes "labelRegex g = label_regex (LabelPrefix (options g))"
  shows "set (filterLabels g ls) =
    {(''caddy'' @ rest, v) | rest v. (LabelPrefix (options g) @ rest, v) \<in> set ls \<and> selected_rest rest}"
proof -
  have rep: "Replace1 (LabelPrefix (options g) @ rest) (LabelPrefix (options g)) ''caddy'' = ''caddy'' @ rest" for rest
    by (simp add: Replace1_prefix)
  then have canon: "\<exists>rest. label' = ''caddy'' @ rest \<and> label = LabelPrefix (options g) @ rest \<and> selected_rest rest"
    if "MatchString (labelRegex g) label" "label' = Replace1 label (LabelPrefix (options g)) ''caddy''" for label label'
    using that unfolding assms MatchString_label_regex by auto
  have set: "set (filterLabels g ls) = {(Replace1 l (LabelPrefix (options g)) ''caddy'', v) | l v. (l, v) \<in> set ls \<and> MatchString (labelRegex g) l}"
    by (auto simp: filterLabels_def)
  show ?thesis
  proof (intro equalityI subsetI)
    fix x assume "x \<in> set (filterLabels g ls)"
    then obtain l v where x: "x = (Replace1 l (LabelPrefix (options g)) ''caddy'', v)" "(l, v) \<in> set ls" "MatchString (labelRegex g) l"
      unfolding set by blast
    from canon [OF x(3) refl] x(1,2)
    show "x \<in> {(''caddy'' @ rest, v) | rest v. (LabelPrefix (options g) @ rest, v) \<in> set ls \<and> selected_rest rest}" by auto
  next
    fix x assume "x \<in> {(''caddy'' @ rest, v) | rest v. (LabelPrefix (options g) @ rest, v) \<in> set ls \<and> selected_rest rest}"
    then obtain rest v where x: "x = (''caddy'' @ rest, v)" "(LabelPrefix (options g) @ rest, v) \<in> set ls" "selected_rest rest" by blast
    then have "MatchString (labelRegex g) (LabelPrefix (options g) @ rest)"
      unfolding assms MatchString_label_regex by blast
    with x show "x \<in> set (filterLabels g ls)" unfolding set using rep by (intro CollectI exI [of _ "LabelPrefix (options g) @ rest"] exI [of _ v]) simp
  qed
qed

text \<open>Two labels never become one.\<close>

lemma filterLabels_distinct:
  assumes "labelRegex g = label_regex (LabelPrefix (options g))" and "distinct (map fst ls)"
  shows "distinct (map fst (filterLabels g ls))"
proof -
  let ?sel = "filter (\<lambda>(label, value). MatchString (labelRegex g) label) ls"
  have d: "distinct (map fst ?sel)" using assms(2) by (rule distinct_map_filter)
  have "inj_on (\<lambda>l. Replace1 l (LabelPrefix (options g)) ''caddy'') (set (map fst ?sel))"
    by (rule inj_onI) (auto simp: assms(1) MatchString_label_regex Replace1_prefix)
  then have "distinct (map (\<lambda>l. Replace1 l (LabelPrefix (options g)) ''caddy'') (map fst ?sel))"
    using d unfolding distinct_map [of "\<lambda>l. Replace1 l (LabelPrefix (options g)) ''caddy''" "map fst ?sel"] by blast
  moreover have "map fst (filterLabels g ls) = map (\<lambda>l. Replace1 l (LabelPrefix (options g)) ''caddy'') (map fst ?sel)"
    by (simp add: filterLabels_def split_def)
  ultimately show ?thesis by simp
qed

lemma mset_filterLabels: "mset ls = mset ls' \<Longrightarrow> mset (filterLabels g ls) = mset (filterLabels g ls')"
  by (simp add: filterLabels_def)

section \<open>Upstreams\<close>

lemma upstreams_eq: "upstreams (Inr targets) params = Inr (Join (sort (map (apply_options params) targets)) '' '')"
proof -
  have "sort (map (apply_options params) (sort targets)) = sort (map (apply_options params) targets)"
    by (rule properties_for_sort) simp_all
  then show ?thesis by (simp add: upstreams_def)
qed

text \<open>The order in which Go iterates over the networks of a container does not show.\<close>

lemma container_ips_perm:
  assumes "mset ns = mset (dc_Networks c)"
  shows "\<exists>ips ips'. getContainerIPAddresses g c b = Inr ips \<and> getContainerIPAddresses g (c\<lparr>dc_Networks := ns\<rparr>) b = Inr ips' \<and>
    mset ips = mset ips'"
  using assms by (simp add: getContainerIPAddresses_def)

lemma upstreams_networks_perm:
  assumes "mset ns = mset (dc_Networks c)"
  shows "upstreams (getContainerIPAddresses g (c\<lparr>dc_Networks := ns\<rparr>) b) params = upstreams (getContainerIPAddresses g c b) params"
proof -
  obtain ips ips' where ips: "getContainerIPAddresses g c b = Inr ips"
      "getContainerIPAddresses g (c\<lparr>dc_Networks := ns\<rparr>) b = Inr ips'" "mset ips = mset ips'"
    using container_ips_perm [OF assms] by blast
  have "sort (map (apply_options params) ips) = sort (map (apply_options params) ips')"
    by (rule properties_for_sort) (simp_all add: ips(3))
  then show ?thesis by (simp add: ips upstreams_eq)
qed

text \<open>Without a label of its own, a container is proxied on its ingress networks only.\<close>

lemma container_ips_ingress:
  assumes "map_of (dc_Labels c) IngressNetworkLabel = None"
  shows "getContainerIPAddresses g c True =
    Inr (map (\<lambda>x. ep_IPAddress (snd x)) (filter (\<lambda>x. is_ingress g (ep_NetworkID (snd x))) (dc_Networks c)))"
  using assms by (simp add: getContainerIPAddresses_def include_network_def split_def)

lemma attachment_ip_dotted:
  "length ip = 4 \<Longrightarrow> n \<le> 32 \<Longrightarrow> attachment_ip (ip4_String ip @ CHR ''/'' # dec_digits n) = ip4_String ip"
  using ParseCIDR_dotted [of ip n] by (auto simp: attachment_ip_def IP_String_As16)

lemma attachment_ip_invalid: "ParseCIDR address = None \<Longrightarrow> attachment_ip address = ''<nil>''"
  by (simp add: attachment_ip_def IP_String_def)

section \<open>The parts of the generator that stay\<close>

lemma options_refresh [simp]: "options (refresh cid now clients g) = options g"
  and labelRegex_refresh [simp]: "labelRegex (refresh cid now clients g) = labelRegex g"
  by (simp_all add: refresh_def checkSwarmAvailability_def Let_def split: sum.split)

text \<open>With checking on, the adapter accepts every generated Caddyfile, if it accepts the empty one.\<close>

lemma caddyfile_text_accepted:
  assumes "ProcessCaddyfile opts" "Adapt ''# Empty caddyfile'' = None"
  shows "Adapt (caddyfile_text Adapt opts cs) = None"
proof -
  let ?t = "MarshalContainer cs"
  have "fst (Process Adapt ?t) = [] \<or> Adapt (fst (Process Adapt ?t)) = None"
  proof (cases "?t = []")
    case True
    then show ?thesis by (simp add: Process_def)
  next
    case False
    show ?thesis
    proof (cases "Unmarshal ?t")
      case (Inl e)
      then show ?thesis by (simp add: Process_def)
    next
      case (Inr ds)
      then show ?thesis
        using keep_valid_accepted [of "[]" Adapt "sort_container ds"] by (auto simp: Process_parsed [OF False])
    qed
  qed
  then show ?thesis using assms by (auto simp: caddyfile_text_eq Let_def)
qed

end
