(* ===== verification/GatewayClient.thy ===== *)
theory GatewayClient
  imports GoStrings
begin

text \<open>
  The OPNsense API client (package \<open>gateway\<close>: \<open>client.go\<close>, \<open>dns.go\<close>, \<open>portforward.go\<close> and the
  types of \<open>opnsense_types_gen.go\<close>). Sending a request is the parameter \<open>send\<close> of the operations: it
  takes the request and the state of the firewall and gives the decoded response, or an error, and
  the new state. The program sends with \<open>do_http\<close>, whose parameters are HTTP and JSON; the error of
  \<open>NewRequest\<close> for a URL that does not parse is among the errors of \<open>send\<close>. A field that is missing in
  a response is the empty string or list.
\<close>

section \<open>Requests and responses\<close>

record HostOverride =
  ho_Enabled :: string
  ho_Hostname :: string
  ho_Domain :: string
  ho_RR :: string
  ho_Server :: string
  ho_Description :: string

record NATRuleEndpoint =
  Network :: string
  Port :: string

record NATRule =
  Interface :: string
  Protocol :: string
  Source :: NATRuleEndpoint
  Destination :: NATRuleEndpoint
  Target :: string
  LocalPort :: string
  Description :: string

text \<open>The fields of a row the program reads.\<close>

record search_row =
  row_UUID :: string
  row_Description :: string

datatype http_method = GET | POST

datatype request_body = NoBody | HostOverrideRequest HostOverride | NATRuleRequest NATRule

record request =
  Method :: http_method
  URL :: string
  Body :: request_body

record response =
  res_UUID :: string
  res_Rows :: "search_row list"
  res_revision :: string

type_synonym 'w sender = "request \<Rightarrow> 'w \<Rightarrow> response result \<times> 'w"

section \<open>The client\<close>

record basicAuthTransport =
  auth_key :: string
  auth_secret :: string

record Client =
  baseURL :: string
  httpClient :: basicAuthTransport

definition NewClientWithURL :: "string \<Rightarrow> string \<Rightarrow> string \<Rightarrow> Client" where
  "NewClientWithURL url key secret = \<lparr>baseURL = url, httpClient = \<lparr>auth_key = key, auth_secret = secret\<rparr>\<rparr>"

definition NewClientFromEnv :: "(string \<Rightarrow> string) \<Rightarrow> Client" where
  "NewClientFromEnv getenv = NewClientWithURL (getenv ''GATEWAY_URL'') (getenv ''GATEWAY_KEY'') (getenv ''GATEWAY_SECRET'')"

definition Enabled :: "Client \<Rightarrow> bool" where
  "Enabled c \<longleftrightarrow> baseURL c \<noteq> []"

definition newGET :: "Client \<Rightarrow> string \<Rightarrow> request" where
  "newGET c path = \<lparr>Method = GET, URL = baseURL c @ path, Body = NoBody\<rparr>"

definition newPOST :: "Client \<Rightarrow> string \<Rightarrow> request_body \<Rightarrow> request" where
  "newPOST c path body = \<lparr>Method = POST, URL = baseURL c @ path, Body = body\<rparr>"

section \<open>Sending\<close>

text \<open>\<open>base64.StdEncoding\<close>, which \<open>Request.SetBasicAuth\<close> applies to the credentials.\<close>

definition base64_digit :: "nat \<Rightarrow> char" where
  "base64_digit n = ''ABCDEFGHIJKLMNOPQRSTUVWXYZabcdefghijklmnopqrstuvwxyz0123456789+/'' ! (n mod 64)"

fun base64 :: "nat list \<Rightarrow> string" where
  "base64 [] = []"
| "base64 [a] = [base64_digit (a div 4), base64_digit (a mod 4 * 16), CHR ''='', CHR ''='']"
| "base64 [a, b] = [base64_digit (a div 4), base64_digit (a mod 4 * 16 + b div 16), base64_digit (b mod 16 * 4), CHR ''='']"
| "base64 (a # b # c # bs) =
     [base64_digit (a div 4), base64_digit (a mod 4 * 16 + b div 16), base64_digit (b mod 16 * 4 + c div 64),
      base64_digit (c mod 64)] @ base64 bs"

type_synonym headers = "string \<rightharpoonup> string list"

definition SetBasicAuth :: "string \<Rightarrow> string \<Rightarrow> headers \<Rightarrow> headers" where
  "SetBasicAuth username password h =
     h(''Authorization'' \<mapsto> [''Basic '' @ base64 (map of_char (username @ '':'' @ password))])"

text \<open>HTTP takes a request with its headers, and gives a status code and a body, or an error.\<close>

record http_response =
  StatusCode :: int
  http_body :: string

type_synonym 'w http = "request \<Rightarrow> headers \<Rightarrow> 'w \<Rightarrow> http_response result \<times> 'w"

definition request_headers :: "request \<Rightarrow> headers" where
  "request_headers req = (if Body req \<noteq> NoBody then Map.empty(''Content-Type'' \<mapsto> [''application/json'']) else Map.empty)"

definition basicAuth_RoundTrip :: "basicAuthTransport \<Rightarrow> 'w http \<Rightarrow> 'w http" where
  "basicAuth_RoundTrip t base req h = base req (SetBasicAuth (auth_key t) (auth_secret t) h)"

definition method_name :: "http_method \<Rightarrow> string" where
  "method_name m = (case m of GET \<Rightarrow> ''GET'' | POST \<Rightarrow> ''POST'')"

text \<open>The path of the parsed URL and decoding JSON are parameters.\<close>

definition do_http :: "'w http \<Rightarrow> (string \<Rightarrow> string) \<Rightarrow> (string \<Rightarrow> response result) \<Rightarrow> Client \<Rightarrow> 'w sender" where
  "do_http base url_path decode c req w =
     (case basicAuth_RoundTrip (httpClient c) base req (request_headers req) w of
        (Inl err, w) \<Rightarrow> (Inl err, w)
      | (Inr resp, w) \<Rightarrow>
          (if StatusCode resp < 200 \<or> StatusCode resp \<ge> 300
           then Inl (''OPNsense '' @ method_name (Method req) @ '' '' @ url_path (URL req) @ '': status '' @
                  Itoa (StatusCode resp) @ '': '' @ http_body resp)
           else case decode (http_body resp) of
             Inl err \<Rightarrow> Inl (''decoding response from '' @ method_name (Method req) @ '' '' @ url_path (URL req) @ '': '' @ err)
           | Inr res \<Rightarrow> Inr res, w))"

text \<open>A response counts if its status is a success and its body decodes; and every request carries the
  credentials of the client.\<close>

lemma do_http_Inr_iff:
  "fst (do_http base url_path decode c req w) = Inr res \<longleftrightarrow>
    (\<exists>resp. fst (base req (SetBasicAuth (auth_key (httpClient c)) (auth_secret (httpClient c)) (request_headers req)) w) = Inr resp \<and>
      200 \<le> StatusCode resp \<and> StatusCode resp < 300 \<and> decode (http_body resp) = Inr res)"
  by (auto simp: do_http_def basicAuth_RoundTrip_def split: prod.splits sum.splits)

section \<open>The operations\<close>

text \<open>Send a request; an error is wrapped with the name of the operation.\<close>

definition do_request :: "'w sender \<Rightarrow> request \<Rightarrow> string \<Rightarrow> (response \<Rightarrow> 'a result) \<Rightarrow> 'w \<Rightarrow> 'a result \<times> 'w" where
  "do_request send req what k w =
     (case send req w of
        (Inl e, w) \<Rightarrow> (Inl (what @ '': '' @ e), w)
      | (Inr res, w) \<Rightarrow> (k res, w))"

definition AddHostOverride ::
  "'w sender \<Rightarrow> Client \<Rightarrow> string \<Rightarrow> string \<Rightarrow> string \<Rightarrow> string \<Rightarrow> 'w \<Rightarrow> string result \<times> 'w" where
  "AddHostOverride send c hostname domain server description =
     (let what = ''add host override '' @ hostname @ ''.'' @ domain in
      do_request send
        (newPOST c ''/api/unbound/settings/add_host_override''
          (HostOverrideRequest \<lparr>ho_Enabled = ''1'', ho_Hostname = hostname, ho_Domain = domain,
             ho_RR = ''A'', ho_Server = server, ho_Description = description\<rparr>))
        what
        (\<lambda>res. if res_UUID res = [] then Inl (what @ '': empty UUID in response'') else Inr (res_UUID res)))"

definition DelHostOverride :: "'w sender \<Rightarrow> Client \<Rightarrow> string \<Rightarrow> 'w \<Rightarrow> unit result \<times> 'w" where
  "DelHostOverride send c uuid =
     do_request send (newPOST c (''/api/unbound/settings/del_host_override/'' @ uuid) NoBody)
       (''del host override '' @ uuid) (\<lambda>res. Inr ())"

definition SearchHostOverrides :: "'w sender \<Rightarrow> Client \<Rightarrow> 'w \<Rightarrow> search_row list result \<times> 'w" where
  "SearchHostOverrides send c =
     do_request send (newGET c ''/api/unbound/settings/search_host_override'') ''search host overrides''
       (\<lambda>res. Inr (res_Rows res))"

definition ReconfigureUnbound :: "'w sender \<Rightarrow> Client \<Rightarrow> 'w \<Rightarrow> unit result \<times> 'w" where
  "ReconfigureUnbound send c =
     do_request send (newPOST c ''/api/unbound/service/reconfigure'' NoBody) ''reconfigure unbound''
       (\<lambda>res. Inr ())"

definition AddNATRule :: "'w sender \<Rightarrow> Client \<Rightarrow> NATRule \<Rightarrow> 'w \<Rightarrow> string result \<times> 'w" where
  "AddNATRule send c rule =
     do_request send (newPOST c ''/api/firewall/d_nat/add_rule'' (NATRuleRequest rule)) ''add NAT rule''
       (\<lambda>res. if res_UUID res = [] then Inl ''add NAT rule: empty UUID in response'' else Inr (res_UUID res))"

definition DelNATRule :: "'w sender \<Rightarrow> Client \<Rightarrow> string \<Rightarrow> 'w \<Rightarrow> unit result \<times> 'w" where
  "DelNATRule send c uuid =
     do_request send (newPOST c (''/api/firewall/d_nat/del_rule/'' @ uuid) NoBody)
       (''del NAT rule '' @ uuid) (\<lambda>res. Inr ())"

definition SearchNATRules :: "'w sender \<Rightarrow> Client \<Rightarrow> 'w \<Rightarrow> search_row list result \<times> 'w" where
  "SearchNATRules send c =
     do_request send (newGET c ''/api/firewall/d_nat/search_rule'') ''search NAT rules''
       (\<lambda>res. Inr (res_Rows res))"

definition Savepoint :: "'w sender \<Rightarrow> Client \<Rightarrow> 'w \<Rightarrow> string result \<times> 'w" where
  "Savepoint send c =
     do_request send (newPOST c ''/api/firewall/filter_base/savepoint'' NoBody) ''savepoint''
       (\<lambda>res. Inr (res_revision res))"

definition Apply :: "'w sender \<Rightarrow> Client \<Rightarrow> string \<Rightarrow> 'w \<Rightarrow> unit result \<times> 'w" where
  "Apply send c revision =
     do_request send (newPOST c (''/api/firewall/filter_base/apply/'' @ revision) NoBody)
       (''apply revision '' @ revision) (\<lambda>res. Inr ())"

section \<open>Ownership\<close>

definition descriptionPrefix :: string where
  "descriptionPrefix = ''[homelab-manager]''"

definition OwnedByUs :: "string \<Rightarrow> bool" where
  "OwnedByUs description \<longleftrightarrow> HasPrefix description descriptionPrefix"

definition MakeDescription :: "string \<Rightarrow> string \<Rightarrow> string" where
  "MakeDescription containerID extra =
     (if extra = [] then descriptionPrefix @ '' '' @ containerID
      else descriptionPrefix @ '' '' @ containerID @ '' '' @ extra)"

definition extractContainerID :: "string \<Rightarrow> string" where
  "extractContainerID description =
     (let (after, found) = CutPrefix description descriptionPrefix in
      if \<not> found then []
      else let parts = Fields after in if length parts = 0 then [] else parts ! 0)"

text \<open>The container IDs in use: visible ASCII characters (they are hexadecimal).\<close>

definition container_id :: "string \<Rightarrow> bool" where
  "container_id cid \<longleftrightarrow> cid \<noteq> [] \<and> (\<forall>c \<in> set cid. 32 < (of_char c :: nat) \<and> (of_char c :: nat) < 127)"

lemma fields_loop_id:
  "(\<forall>c \<in> set cid. 32 < (of_char c :: nat) \<and> (of_char c :: nat) < 127) \<Longrightarrow>
   fields_loop (rune_chunks (cid @ s)) cur = fields_loop (rune_chunks s) (cur @ cid)"
proof (induction cid arbitrary: cur)
  case (Cons c cid)
  then have "\<not> IsSpace (of_char c)" by (auto simp: IsSpace_def)
  then show ?case using Cons by (simp add: rune_chunks_ascii del: rune_chunks.simps(2))
qed simp

lemma CutPrefix_append [simp]: "CutPrefix (p @ s) p = (s, True)"
  by (simp add: CutPrefix_def)

lemma extract_MakeDescription:
  assumes "container_id cid"
  shows "extractContainerID (MakeDescription cid extra) = cid"
proof -
  have space: "IsSpace 32" by (simp add: IsSpace_def)
  have "Fields ('' '' @ cid @ s) = cid # Fields s" if "s = [] \<or> hd s = CHR '' ''" for s
    using that assms fields_loop_id [of cid s "[]"] space
    by (cases s) (auto simp: Fields_def rune_chunks_ascii container_id_def simp del: rune_chunks.simps(2))
  from this [of "[]"] this [of "'' '' @ extra"] show ?thesis
    by (simp add: extractContainerID_def MakeDescription_def)
qed

lemma OwnedByUs_MakeDescription: "OwnedByUs (MakeDescription cid extra)"
  by (simp add: OwnedByUs_def MakeDescription_def)

end
