(* ===== verification/GatewayState.thy ===== *)
theory GatewayState
  imports GatewayClient
begin

text \<open>
  The resources the program owns on the firewall (\<open>gateway/state.go\<close>): which DNS overrides and NAT
  rules belong to which container. Each method holds the mutex for its whole body, so an operation
  is one step.
\<close>

section \<open>State\<close>

record State =
  dnsUUIDs :: "string \<rightharpoonup> string list"
  natUUIDs :: "string \<rightharpoonup> string list"

definition NewState :: State where
  "NewState = \<lparr>dnsUUIDs = Map.empty, natUUIDs = Map.empty\<rparr>"

text \<open>Reading a missing key of a Go map gives nil, the empty slice.\<close>

definition uuids :: "(string \<rightharpoonup> string list) \<Rightarrow> string \<Rightarrow> string list" where
  "uuids m containerID = (case m containerID of None \<Rightarrow> [] | Some us \<Rightarrow> us)"

definition add_uuid :: "string \<Rightarrow> string \<Rightarrow> (string \<rightharpoonup> string list) \<Rightarrow> (string \<rightharpoonup> string list)" where
  "add_uuid containerID uuid m = m(containerID \<mapsto> uuids m containerID @ [uuid])"

definition AddDNS :: "string \<Rightarrow> string \<Rightarrow> State \<Rightarrow> State" where
  "AddDNS containerID uuid s = s\<lparr>dnsUUIDs := add_uuid containerID uuid (dnsUUIDs s)\<rparr>"

definition AddNAT :: "string \<Rightarrow> string \<Rightarrow> State \<Rightarrow> State" where
  "AddNAT containerID uuid s = s\<lparr>natUUIDs := add_uuid containerID uuid (natUUIDs s)\<rparr>"

definition RemoveDNS :: "string \<Rightarrow> State \<Rightarrow> string list \<times> State" where
  "RemoveDNS containerID s =
     (uuids (dnsUUIDs s) containerID, s\<lparr>dnsUUIDs := (dnsUUIDs s)(containerID := None)\<rparr>)"

definition RemoveNAT :: "string \<Rightarrow> State \<Rightarrow> string list \<times> State" where
  "RemoveNAT containerID s =
     (uuids (natUUIDs s) containerID, s\<lparr>natUUIDs := (natUUIDs s)(containerID := None)\<rparr>)"

definition HasDNS :: "string \<Rightarrow> State \<Rightarrow> bool" where
  "HasDNS containerID s \<longleftrightarrow> length (uuids (dnsUUIDs s) containerID) > 0"

definition HasNAT :: "string \<Rightarrow> State \<Rightarrow> bool" where
  "HasNAT containerID s \<longleftrightarrow> length (uuids (natUUIDs s) containerID) > 0"

text \<open>\<open>KnownContainerIDs\<close> returns the keys of both maps in an order Go does not define; the
  relation holds for every result it can have.\<close>

definition KnownContainerIDs :: "State \<Rightarrow> string list \<Rightarrow> bool" where
  "KnownContainerIDs s ids \<longleftrightarrow> distinct ids \<and> set ids = dom (dnsUUIDs s) \<union> dom (natUUIDs s)"

section \<open>ReconcileOnStartup\<close>

fun adopt_rows :: "search_row list \<Rightarrow> (string \<rightharpoonup> string list) \<Rightarrow> (string \<rightharpoonup> string list)" where
  "adopt_rows [] m = m"
| "adopt_rows (row # rows) m =
     (if \<not> OwnedByUs (row_Description row) then adopt_rows rows m
      else
        let cid = extractContainerID (row_Description row) in
        if cid = [] then adopt_rows rows m
        else adopt_rows rows (add_uuid cid (row_UUID row) m))"

definition ReconcileOnStartup :: "'w sender \<Rightarrow> Client \<Rightarrow> State \<Rightarrow> 'w \<Rightarrow> string option \<times> State \<times> 'w" where
  "ReconcileOnStartup send c s w =
     (if \<not> Enabled c then (None, s, w)
      else
        case SearchHostOverrides send c w of
          (Inl err, w) \<Rightarrow> (Some (''reconcile DNS: '' @ err), s, w)
        | (Inr dnsRows, w) \<Rightarrow>
            let s = s\<lparr>dnsUUIDs := adopt_rows dnsRows (dnsUUIDs s)\<rparr> in
            (case SearchNATRules send c w of
               (Inl err, w) \<Rightarrow> (Some (''reconcile NAT: '' @ err), s, w)
             | (Inr natRows, w) \<Rightarrow>
                 (None, s\<lparr>natUUIDs := adopt_rows natRows (natUUIDs s)\<rparr>, w)))"

section \<open>Laws\<close>

text \<open>One table of the state as an interface: what is recorded under a container.\<close>

locale ownership_table =
  fixes get :: "'t \<Rightarrow> string \<Rightarrow> string list"
    and add :: "string \<Rightarrow> string \<Rightarrow> 't \<Rightarrow> 't"
    and remove :: "string \<Rightarrow> 't \<Rightarrow> string list \<times> 't"
    and has :: "string \<Rightarrow> 't \<Rightarrow> bool"
  assumes get_add: "get (add cid u t) = (get t)(cid := get t cid @ [u])"
    and remove_result: "fst (remove cid t) = get t cid"
    and get_remove: "get (snd (remove cid t)) = (get t)(cid := [])"
    and has_get: "has cid t \<longleftrightarrow> get t cid \<noteq> []"
begin

definition add_all :: "string \<Rightarrow> string list \<Rightarrow> 't \<Rightarrow> 't" where
  "add_all cid us t = fold (add cid) us t"

lemma get_add_all: "get (add_all cid us t) = (get t)(cid := get t cid @ us)"
  by (induction us arbitrary: t) (simp_all add: add_all_def get_add)

lemma add_then_remove: "get t cid = [] \<Longrightarrow>
    fst (remove cid (add_all cid us t)) = us \<and> get (snd (remove cid (add_all cid us t))) = get t"
  by (simp add: remove_result get_remove get_add_all fun_upd_idem)

lemma has_add: "has cid' (add cid u t) \<longleftrightarrow> cid' = cid \<or> has cid' t"
  by (simp add: has_get get_add)

lemma has_remove: "has cid' (snd (remove cid t)) \<longleftrightarrow> cid' \<noteq> cid \<and> has cid' t"
  by (simp add: has_get get_remove)

end

lemma uuids_upd [simp]:
  "uuids (m(cid \<mapsto> us)) = (uuids m)(cid := us)" "uuids (m(cid := None)) = (uuids m)(cid := [])"
  by (simp_all add: uuids_def fun_eq_iff)

lemma uuids_add [simp]: "uuids (add_uuid cid u m) = (uuids m)(cid := uuids m cid @ [u])"
  by (simp add: add_uuid_def)

interpretation dns_table: ownership_table "\<lambda>s. uuids (dnsUUIDs s)" AddDNS RemoveDNS HasDNS
  by unfold_locales (simp_all add: AddDNS_def RemoveDNS_def HasDNS_def)

interpretation nat_table: ownership_table "\<lambda>s. uuids (natUUIDs s)" AddNAT RemoveNAT HasNAT
  by unfold_locales (simp_all add: AddNAT_def RemoveNAT_def HasNAT_def)

lemma State_ops [simp]:
  "natUUIDs (AddDNS cid u s) = natUUIDs s" "dnsUUIDs (AddNAT cid u s) = dnsUUIDs s"
  "natUUIDs (snd (RemoveDNS cid s)) = natUUIDs s" "dnsUUIDs (snd (RemoveNAT cid s)) = dnsUUIDs s"
  "dnsUUIDs (AddDNS cid u s) = add_uuid cid u (dnsUUIDs s)"
  "natUUIDs (AddNAT cid u s) = add_uuid cid u (natUUIDs s)"
  "dnsUUIDs (snd (RemoveDNS cid s)) = (dnsUUIDs s)(cid := None)"
  "natUUIDs (snd (RemoveNAT cid s)) = (natUUIDs s)(cid := None)"
  "fst (RemoveDNS cid s) = uuids (dnsUUIDs s) cid" "fst (RemoveNAT cid s) = uuids (natUUIDs s) cid"
  by (simp_all add: AddDNS_def AddNAT_def RemoveDNS_def RemoveNAT_def)

text \<open>The rows adopted for a container are those whose description names it.\<close>

definition rows_of :: "string \<Rightarrow> search_row list \<Rightarrow> string list" where
  "rows_of cid rows =
     map row_UUID (filter (\<lambda>row. OwnedByUs (row_Description row) \<and> extractContainerID (row_Description row) = cid) rows)"

lemma uuids_adopt_rows: "cid \<noteq> [] \<Longrightarrow> uuids (adopt_rows rows m) cid = uuids m cid @ rows_of cid rows"
  by (induction rows m rule: adopt_rows.induct) (auto simp: rows_of_def Let_def)

lemma adopt_rows_empty: "uuids (adopt_rows rows m) [] = uuids m []"
  by (induction rows m rule: adopt_rows.induct) (auto simp: Let_def)

lemma dom_add_uuid [simp]: "dom (add_uuid cid u m) = insert cid (dom m)"
  by (simp add: add_uuid_def)

lemma dom_adopt_rows: "dom (adopt_rows rows m) = dom m \<union> {cid. cid \<noteq> [] \<and> rows_of cid rows \<noteq> []}"
  by (induction rows m rule: adopt_rows.induct) (auto simp: rows_of_def Let_def)

end
