(* ===== verification/GatewayLabels.thy ===== *)
theory GatewayLabels
  imports GatewayClient "HOL-Library.AList" "HOL-Library.Multiset"
begin

text \<open>
  The gateway labels of containers (\<open>loader_gateway.go\<close>: \<open>parseRemoteHosts\<close>, \<open>buildNATRules\<close>,
  \<open>extractDNSTargets\<close>, \<open>splitDomain\<close>). A label map is the list of its entries in the order of a Go
  map iteration.
\<close>

section \<open>Numbered labels\<close>

text \<open>A label \<open><prefix><number>.<field>\<close>: its number and field.\<close>

definition indexed_label :: "string \<Rightarrow> string \<Rightarrow> (int \<times> string) option" where
  "indexed_label pfx k =
     (if \<not> HasPrefix k pfx then None
      else
        let rest = drop (length pfx) k in
        case SplitN2 rest CHR ''.'' of
          [number, field] \<Rightarrow> (case Atoi number of (idx, ok) \<Rightarrow> if ok then Some (idx, field) else None)
        | _ \<Rightarrow> None)"

text \<open>The loop over the labels: entries are created on first use and filled field by field.\<close>

definition collect_label ::
  "string \<Rightarrow> 'e \<Rightarrow> (string \<Rightarrow> string \<Rightarrow> 'e \<Rightarrow> 'e) \<Rightarrow> string \<times> string \<Rightarrow> (int \<times> 'e) list \<Rightarrow> (int \<times> 'e) list" where
  "collect_label pfx new set_field lv entries =
     (case indexed_label pfx (fst lv) of
        None \<Rightarrow> entries
      | Some (idx, field) \<Rightarrow>
          let e = (case map_of entries idx of None \<Rightarrow> new | Some e \<Rightarrow> e)
          in AList.update idx (set_field field (snd lv) e) entries)"

definition collect_labels ::
  "string \<Rightarrow> 'e \<Rightarrow> (string \<Rightarrow> string \<Rightarrow> 'e \<Rightarrow> 'e) \<Rightarrow> (string \<times> string) list \<Rightarrow> (int \<times> 'e) list" where
  "collect_labels pfx new set_field labels = fold (collect_label pfx new set_field) labels []"

text \<open>The entries by increasing number.\<close>

definition ordered_entries :: "(int \<times> 'e) list \<Rightarrow> 'e list" where
  "ordered_entries entries = map (\<lambda>idx. the (map_of entries idx)) (sort (map fst entries))"

section \<open>Remote hosts\<close>

record remoteHostEntry =
  re_URL :: string
  re_Token :: string
  re_Name :: string

definition set_remote_field :: "string \<Rightarrow> string \<Rightarrow> remoteHostEntry \<Rightarrow> remoteHostEntry" where
  "set_remote_field field v e =
     (if field = ''url'' then e\<lparr>re_URL := v\<rparr>
      else if field = ''token'' then e\<lparr>re_Token := v\<rparr>
      else if field = ''name'' then e\<lparr>re_Name := v\<rparr>
      else e)"

definition parseRemoteHosts :: "(string \<times> string) list \<Rightarrow> remoteHostEntry list" where
  "parseRemoteHosts labels =
     filter (\<lambda>e. re_URL e \<noteq> [])
       (ordered_entries
         (collect_labels ''gateway.remote.'' \<lparr>re_URL = [], re_Token = [], re_Name = []\<rparr> set_remote_field labels))"

section \<open>Port forwarding\<close>

record portForwardEntry =
  protocol :: string
  srcPort :: string
  dstPort :: string
  pf_description :: string

definition set_forward_field :: "string \<Rightarrow> string \<Rightarrow> portForwardEntry \<Rightarrow> portForwardEntry" where
  "set_forward_field field v e =
     (if field = ''protocol'' then e\<lparr>protocol := v\<rparr>
      else if field = ''src_port'' then e\<lparr>srcPort := v\<rparr>
      else if field = ''dst_port'' then e\<lparr>dstPort := v\<rparr>
      else if field = ''description'' then e\<lparr>pf_description := v\<rparr>
      else e)"

definition forward_rule :: "string \<Rightarrow> string \<Rightarrow> portForwardEntry \<Rightarrow> NATRule" where
  "forward_rule hostIP containerID e =
     \<lparr>Interface = ''wan'', Protocol = protocol e,
      Source = \<lparr>Network = ''any'', Port = []\<rparr>,
      Destination = \<lparr>Network = [], Port = srcPort e\<rparr>,
      Target = hostIP, LocalPort = dstPort e,
      Description = MakeDescription containerID (pf_description e)\<rparr>"

definition buildNATRules :: "(string \<times> string) list \<Rightarrow> string \<Rightarrow> string \<Rightarrow> NATRule list" where
  "buildNATRules labels hostIP containerID =
     map (forward_rule hostIP containerID)
       (filter (\<lambda>e. \<not> (protocol e = [] \<or> srcPort e = [] \<or> dstPort e = []))
         (ordered_entries
           (collect_labels ''gateway.portforward.''
             \<lparr>protocol = [], srcPort = [], dstPort = [], pf_description = []\<rparr> set_forward_field labels)))"

section \<open>DNS targets\<close>

definition extractDNSTargets :: "(string \<times> string) list \<Rightarrow> string \<Rightarrow> string list" where
  "extractDNSTargets labels labelPrefix =
     (if map_of labels ''gateway.dns'' = Some ''false'' then []
      else
        case map_of labels labelPrefix of
          None \<Rightarrow> []
        | Some val \<Rightarrow> filter (\<lambda>d. d \<noteq> [] \<and> CHR ''*'' \<notin> set d) (Fields val))"

definition splitDomain :: "string \<Rightarrow> string \<times> string \<times> bool" where
  "splitDomain fqdn =
     (let idx = IndexByte fqdn CHR ''.'' in
      if idx < 1 \<or> idx = int (length fqdn) - 1 then ([], [], False)
      else (take (nat idx) fqdn, drop (nat idx + 1) fqdn, True))"

section \<open>Laws\<close>

text \<open>
  What an entry becomes does not depend on the order of the labels, as long as setting two
  different fields commutes and no two labels name the same field of the same entry.
\<close>

definition no_clash :: "string \<Rightarrow> (string \<times> string) list \<Rightarrow> bool" where
  "no_clash pfx labels \<longleftrightarrow>
     (\<forall>x \<in> set labels. \<forall>y \<in> set labels.
        indexed_label pfx (fst x) \<noteq> None \<and> indexed_label pfx (fst x) = indexed_label pfx (fst y) \<longrightarrow> x = y)"

locale entry_fields =
  fixes new :: 'e
    and set_field :: "string \<Rightarrow> string \<Rightarrow> 'e \<Rightarrow> 'e"
  assumes fields_commute: "f \<noteq> g \<Longrightarrow> set_field f v (set_field g w e) = set_field g w (set_field f v e)"
begin

definition collect_map :: "string \<Rightarrow> string \<times> string \<Rightarrow> (int \<rightharpoonup> 'e) \<Rightarrow> (int \<rightharpoonup> 'e)" where
  "collect_map pfx lv m =
     (case indexed_label pfx (fst lv) of
        None \<Rightarrow> m
      | Some (idx, field) \<Rightarrow> m(idx \<mapsto> set_field field (snd lv) (case m idx of None \<Rightarrow> new | Some e \<Rightarrow> e)))"

lemma map_of_collect_label: "map_of (collect_label pfx new set_field lv entries) = collect_map pfx lv (map_of entries)"
  by (auto simp: collect_label_def collect_map_def Let_def update_conv' split: option.splits)

lemma distinct_collect_label:
  "distinct (map fst entries) \<Longrightarrow> distinct (map fst (collect_label pfx new set_field lv entries))"
  by (auto simp: collect_label_def Let_def distinct_update split: option.splits)

lemma collect_fold:
  "distinct (map fst entries) \<Longrightarrow>
   map_of (fold (collect_label pfx new set_field) labels entries) = fold (collect_map pfx) labels (map_of entries) \<and>
   distinct (map fst (fold (collect_label pfx new set_field) labels entries))"
  by (induction labels arbitrary: entries) (simp_all add: map_of_collect_label distinct_collect_label)

lemma collect_commute:
  assumes "indexed_label pfx (fst x) = None \<or> indexed_label pfx (fst x) \<noteq> indexed_label pfx (fst y)"
  shows "collect_map pfx x \<circ> collect_map pfx y = collect_map pfx y \<circ> collect_map pfx x"
proof (cases "indexed_label pfx (fst x) = None \<or> indexed_label pfx (fst y) = None")
  case True
  then show ?thesis by (auto simp: collect_map_def fun_eq_iff split: option.splits)
next
  case False
  then obtain i f j g where "indexed_label pfx (fst x) = Some (i, f)" "indexed_label pfx (fst y) = Some (j, g)"
    by auto
  then show ?thesis
    using assms fields_commute
    by (cases "i = j") (auto simp: collect_map_def fun_eq_iff fun_upd_twist split: option.split)
qed

lemma ordered_entries_map:
  assumes "distinct (map fst es)" "distinct (map fst es')" "map_of es = map_of es'"
  shows "ordered_entries es = ordered_entries es'"
proof -
  have "set (map fst es) = set (map fst es')"
    using assms(3) by (metis dom_map_of_conv_image_fst list.set_map)
  then have "sort (map fst es) = sort (map fst es')"
    using assms(1,2) by (metis distinct_sort set_sort sorted_distinct_set_unique sorted_sort)
  then show ?thesis by (simp add: ordered_entries_def assms(3))
qed

lemma ordered_entries_order:
  assumes "no_clash pfx labels" "mset labels = mset labels'"
  shows "ordered_entries (collect_labels pfx new set_field labels) =
         ordered_entries (collect_labels pfx new set_field labels')"
proof -
  have "fold (collect_map pfx) labels = fold (collect_map pfx) labels'"
  proof (rule fold_multiset_equiv [OF _ assms(2)])
    fix x y assume "x \<in> set labels" "y \<in> set labels"
    then show "collect_map pfx x \<circ> collect_map pfx y = collect_map pfx y \<circ> collect_map pfx x"
      using assms(1) collect_commute [of pfx x y] unfolding no_clash_def by blast
  qed
  then show ?thesis
    unfolding collect_labels_def
    using collect_fold [of "[]" pfx labels] collect_fold [of "[]" pfx labels']
    by (intro ordered_entries_map) simp_all
qed

end

interpretation remote_fields: entry_fields "\<lparr>re_URL = [], re_Token = [], re_Name = []\<rparr>" set_remote_field
  by unfold_locales (auto simp: set_remote_field_def)

interpretation forward_fields: entry_fields
  "\<lparr>protocol = [], srcPort = [], dstPort = [], pf_description = []\<rparr>" set_forward_field
  by unfold_locales (auto simp: set_forward_field_def)

lemma parseRemoteHosts_order:
  "no_clash ''gateway.remote.'' labels \<Longrightarrow> mset labels = mset labels' \<Longrightarrow>
   parseRemoteHosts labels = parseRemoteHosts labels'"
  using remote_fields.ordered_entries_order [of "''gateway.remote.''" labels labels']
  by (simp add: parseRemoteHosts_def)

lemma buildNATRules_order:
  "no_clash ''gateway.portforward.'' labels \<Longrightarrow> mset labels = mset labels' \<Longrightarrow>
   buildNATRules labels hostIP cid = buildNATRules labels' hostIP cid"
  using forward_fields.ordered_entries_order [of "''gateway.portforward.''" labels labels']
  by (simp add: buildNATRules_def)

text \<open>Every rule is complete, aims at the host and names its container.\<close>

lemma buildNATRules_rule:
  assumes "r \<in> set (buildNATRules labels hostIP cid)"
  shows "Protocol r \<noteq> [] \<and> Port (Destination r) \<noteq> [] \<and> LocalPort r \<noteq> [] \<and> Target r = hostIP \<and>
    Interface r = ''wan'' \<and> (\<exists>extra. Description r = MakeDescription cid extra)"
  using assms by (auto simp: buildNATRules_def forward_rule_def)

lemma splitDomain_iff:
  "splitDomain fqdn = (h, d, True) \<longleftrightarrow> fqdn = h @ CHR ''.'' # d \<and> h \<noteq> [] \<and> d \<noteq> [] \<and> CHR ''.'' \<notin> set h"
proof
  let ?i = "IndexByte fqdn CHR ''.''"
  assume s: "splitDomain fqdn = (h, d, True)"
  then have i: "1 \<le> ?i" "?i \<noteq> int (length fqdn) - 1" "h = take (nat ?i) fqdn" "d = drop (nat ?i + 1) fqdn"
    by (auto simp: splitDomain_def Let_def split: if_splits)
  moreover have "?i < int (length fqdn)" using IndexByte_range by blast
  ultimately have "h \<noteq> []" "d \<noteq> []" by auto
  then show "fqdn = h @ CHR ''.'' # d \<and> h \<noteq> [] \<and> d \<noteq> [] \<and> CHR ''.'' \<notin> set h"
    using IndexByte_nonneg [of fqdn "CHR ''.''"] i by simp
next
  assume h: "fqdn = h @ CHR ''.'' # d \<and> h \<noteq> [] \<and> d \<noteq> [] \<and> CHR ''.'' \<notin> set h"
  then have "IndexByte fqdn CHR ''.'' = int (length h)" by (simp add: IndexByte_first)
  with h show "splitDomain fqdn = (h, d, True)"
    by (simp add: splitDomain_def Let_def Suc_le_eq)
qed

end
