(* ===== verification/Reconcile.thy ===== *)
theory Reconcile
  imports GatewayState GatewayLabels
begin

text \<open>
  Bringing the firewall in line with the running containers (\<open>reconcileGateway\<close> of
  \<open>loader_gateway.go\<close>). The firewall is the state \<open>'w\<close> behind the parameter \<open>send\<close>. The code logs
  \<open>cid[:12]\<close>, which panics for a shorter ID: a computation ends in \<open>Inr\<close> or, with a panic, in \<open>Inl\<close>,
  with the state reached in either case. The orders in which Go iterates over the known and the
  running containers are the parameters \<open>known\<close> and \<open>running\<close>.
\<close>

section \<open>The running containers\<close>

record containerInfo =
  ci_labels :: "(string \<times> string) list"
  ci_hostIP :: string

text \<open>A Docker host: the host IP of its client, and what \<open>ContainerList\<close> returns.\<close>

record docker_host =
  dh_HostIP :: string
  dh_containers :: "(string \<times> (string \<times> string) list) list result"

fun collect_current :: "string \<Rightarrow> docker_host list \<Rightarrow> (string \<rightharpoonup> containerInfo) \<Rightarrow> (string \<rightharpoonup> containerInfo)" where
  "collect_current caddyIP [] current = current"
| "collect_current caddyIP (dc # dcs) current =
     (let hostIP = (if dh_HostIP dc = [] then caddyIP else dh_HostIP dc) in
      case dh_containers dc of
        Inl err \<Rightarrow> collect_current caddyIP dcs current
      | Inr containers \<Rightarrow>
          collect_current caddyIP dcs
            (fold (\<lambda>(cid, labels) m. m(cid \<mapsto> \<lparr>ci_labels = labels, ci_hostIP = hostIP\<rparr>)) containers current))"

section \<open>Removing and adding rules\<close>

record 'w rec_state =
  world :: 'w
  gstate :: State
  dnsChanged :: bool
  natRevision :: string

type_synonym 'w outcome = "'w rec_state + 'w rec_state"

definition and_then :: "'w outcome \<Rightarrow> ('w rec_state \<Rightarrow> 'w outcome) \<Rightarrow> 'w outcome" where
  "and_then x f = (case x of Inl r \<Rightarrow> Inl r | Inr r \<Rightarrow> f r)"

text \<open>The log call with \<open>cid[:12]\<close>.\<close>

definition log_id :: "string \<Rightarrow> 'w rec_state \<Rightarrow> 'w outcome" where
  "log_id cid r = (if length cid < 12 then Inl r else Inr r)"

definition ensure_savepoint :: "'w sender \<Rightarrow> Client \<Rightarrow> 'w rec_state \<Rightarrow> 'w rec_state" where
  "ensure_savepoint send c r =
     (if natRevision r = [] then
        (case Savepoint send c (world r) of
           (Inl err, w) \<Rightarrow> r\<lparr>world := w, natRevision := []\<rparr>
         | (Inr revision, w) \<Rightarrow> r\<lparr>world := w, natRevision := revision\<rparr>)
      else r)"

fun del_dns_rules :: "'w sender \<Rightarrow> Client \<Rightarrow> string \<Rightarrow> string list \<Rightarrow> 'w rec_state \<Rightarrow> 'w outcome" where
  "del_dns_rules send c cid [] r = Inr r"
| "del_dns_rules send c cid (uuid # us) r =
     (case DelHostOverride send c uuid (world r) of
        (Inl err, w) \<Rightarrow> del_dns_rules send c cid us (r\<lparr>world := w\<rparr>)
      | (Inr _, w) \<Rightarrow>
          and_then (log_id cid (r\<lparr>world := w, dnsChanged := True\<rparr>)) (del_dns_rules send c cid us))"

fun del_nat_rules :: "'w sender \<Rightarrow> Client \<Rightarrow> string \<Rightarrow> string list \<Rightarrow> 'w rec_state \<Rightarrow> 'w outcome" where
  "del_nat_rules send c cid [] r = Inr r"
| "del_nat_rules send c cid (uuid # us) r =
     (let r = ensure_savepoint send c r in
      case DelNATRule send c uuid (world r) of
        (Inl err, w) \<Rightarrow> del_nat_rules send c cid us (r\<lparr>world := w\<rparr>)
      | (Inr _, w) \<Rightarrow> and_then (log_id cid (r\<lparr>world := w\<rparr>)) (del_nat_rules send c cid us))"

definition remove_container :: "'w sender \<Rightarrow> Client \<Rightarrow> string \<Rightarrow> 'w rec_state \<Rightarrow> 'w outcome" where
  "remove_container send c cid r =
     (case RemoveDNS cid (gstate r) of (us, s) \<Rightarrow>
      and_then (del_dns_rules send c cid us (r\<lparr>gstate := s\<rparr>))
        (\<lambda>r. case RemoveNAT cid (gstate r) of (us, s) \<Rightarrow> del_nat_rules send c cid us (r\<lparr>gstate := s\<rparr>)))"

fun remove_stopped ::
  "'w sender \<Rightarrow> Client \<Rightarrow> (string \<rightharpoonup> containerInfo) \<Rightarrow> string list \<Rightarrow> 'w rec_state \<Rightarrow> 'w outcome" where
  "remove_stopped send c current [] r = Inr r"
| "remove_stopped send c current (cid # cids) r =
     (if current cid \<noteq> None then remove_stopped send c current cids r
      else and_then (remove_container send c cid r) (remove_stopped send c current cids))"

fun add_dns_rules ::
  "'w sender \<Rightarrow> Client \<Rightarrow> string \<Rightarrow> string \<Rightarrow> string list \<Rightarrow> 'w rec_state \<Rightarrow> 'w outcome" where
  "add_dns_rules send c caddyIP cid [] r = Inr r"
| "add_dns_rules send c caddyIP cid (domain # domains) r =
     (case splitDomain domain of (hostname, domainPart, ok) \<Rightarrow>
      if \<not> ok then add_dns_rules send c caddyIP cid domains r
      else
        case AddHostOverride send c hostname domainPart caddyIP (MakeDescription cid []) (world r) of
          (Inl err, w) \<Rightarrow> add_dns_rules send c caddyIP cid domains (r\<lparr>world := w\<rparr>)
        | (Inr uuid, w) \<Rightarrow>
            and_then (log_id cid (r\<lparr>world := w, gstate := AddDNS cid uuid (gstate r), dnsChanged := True\<rparr>))
              (add_dns_rules send c caddyIP cid domains))"

fun add_nat_rules :: "'w sender \<Rightarrow> Client \<Rightarrow> string \<Rightarrow> NATRule list \<Rightarrow> 'w rec_state \<Rightarrow> 'w outcome" where
  "add_nat_rules send c cid [] r = Inr r"
| "add_nat_rules send c cid (rule # rules) r =
     (let r = ensure_savepoint send c r in
      case AddNATRule send c rule (world r) of
        (Inl err, w) \<Rightarrow> add_nat_rules send c cid rules (r\<lparr>world := w\<rparr>)
      | (Inr uuid, w) \<Rightarrow>
          and_then (log_id cid (r\<lparr>world := w, gstate := AddNAT cid uuid (gstate r)\<rparr>))
            (add_nat_rules send c cid rules))"

definition add_container_dns ::
  "'w sender \<Rightarrow> Client \<Rightarrow> string \<Rightarrow> string \<Rightarrow> string \<Rightarrow> containerInfo \<Rightarrow> 'w rec_state \<Rightarrow> 'w outcome" where
  "add_container_dns send c caddyIP labelPrefix cid info r =
     (if \<not> HasDNS cid (gstate r) then
        let domains = extractDNSTargets (ci_labels info) labelPrefix in
        if length domains > 0 \<and> caddyIP = [] then Inr r
        else add_dns_rules send c caddyIP cid domains r
      else Inr r)"

definition add_container_nat :: "'w sender \<Rightarrow> Client \<Rightarrow> string \<Rightarrow> containerInfo \<Rightarrow> 'w rec_state \<Rightarrow> 'w outcome" where
  "add_container_nat send c cid info r =
     (if \<not> HasNAT cid (gstate r) then
        let rules = buildNATRules (ci_labels info) (ci_hostIP info) cid in
        if length rules > 0 \<and> ci_hostIP info = [] then log_id cid r
        else add_nat_rules send c cid rules r
      else Inr r)"

fun add_running ::
  "'w sender \<Rightarrow> Client \<Rightarrow> string \<Rightarrow> string \<Rightarrow> (string \<rightharpoonup> containerInfo) \<Rightarrow> string list \<Rightarrow> 'w rec_state \<Rightarrow> 'w outcome" where
  "add_running send c caddyIP labelPrefix current [] r = Inr r"
| "add_running send c caddyIP labelPrefix current (cid # cids) r =
     (case current cid of
        None \<Rightarrow> add_running send c caddyIP labelPrefix current cids r
      | Some info \<Rightarrow>
          and_then (add_container_dns send c caddyIP labelPrefix cid info r) (\<lambda>r.
          and_then (add_container_nat send c cid info r)
            (add_running send c caddyIP labelPrefix current cids)))"

definition apply_changes :: "'w sender \<Rightarrow> Client \<Rightarrow> 'w rec_state \<Rightarrow> 'w rec_state" where
  "apply_changes send c r =
     (let r = (if dnsChanged r then r\<lparr>world := snd (ReconfigureUnbound send c (world r))\<rparr> else r) in
      if natRevision r \<noteq> [] then r\<lparr>world := snd (Apply send c (natRevision r) (world r))\<rparr> else r)"

definition reconcileGateway ::
  "'w sender \<Rightarrow> Client \<Rightarrow> string \<Rightarrow> string \<Rightarrow> docker_host list \<Rightarrow> string list \<Rightarrow> string list \<Rightarrow>
   State \<Rightarrow> 'w \<Rightarrow> 'w outcome" where
  "reconcileGateway send c caddyIP labelPrefix hosts known running s w =
     (let r = \<lparr>world = w, gstate = s, dnsChanged = False, natRevision = []\<rparr> in
      if \<not> Enabled c then Inr r
      else
        let current = collect_current caddyIP hosts Map.empty in
        and_then (remove_stopped send c current known r) (\<lambda>r.
        and_then (add_running send c caddyIP labelPrefix current running r) (\<lambda>r.
          Inr (apply_changes send c r))))"

text \<open>The orders of iteration that are possible: every key of each map once.\<close>

definition iteration_orders :: "string \<Rightarrow> docker_host list \<Rightarrow> State \<Rightarrow> string list \<Rightarrow> string list \<Rightarrow> bool" where
  "iteration_orders caddyIP hosts s known running \<longleftrightarrow>
     KnownContainerIDs s known \<and> distinct running \<and> set running = dom (collect_current caddyIP hosts Map.empty)"

end
