(* ===== verification/ReconcileLaws.thy ===== *)
theory ReconcileLaws
  imports Reconcile
begin

text \<open>
  What reconciling does to the ownership state and which requests it sends. Requests are observed
  through \<open>logged\<close>, which turns any sender into one that also keeps the list of the requests sent.
\<close>

section \<open>Panics\<close>

lemma and_then_Inr [simp]: "and_then x f = Inr r \<longleftrightarrow> (\<exists>r1. x = Inr r1 \<and> f r1 = Inr r)"
  by (auto simp: and_then_def split: sum.splits)

lemma and_then_simps: "and_then (Inr r) f = f r" "and_then (Inl r) f = Inl r"
  by (simp_all add: and_then_def)

lemma log_id_Inr [simp]: "log_id cid r = Inr r' \<longleftrightarrow> 12 \<le> length cid \<and> r' = r"
  by (auto simp: log_id_def)

text \<open>With IDs of at least 12 characters there is no panic.\<close>

lemma rules_no_panic:
  assumes "12 \<le> length cid"
  shows "\<exists>r'. del_dns_rules send c cid us r = Inr r'" "\<exists>r'. del_nat_rules send c cid us r = Inr r'"
    "\<exists>r'. add_dns_rules send c caddyIP cid domains r = Inr r'" "\<exists>r'. add_nat_rules send c cid rules r = Inr r'"
proof -
  show "\<exists>r'. del_dns_rules send c cid us r = Inr r'" using assms
    by (induction us arbitrary: r) (auto split: prod.splits sum.splits)
  show "\<exists>r'. del_nat_rules send c cid us r = Inr r'" using assms
    by (induction us arbitrary: r) (auto simp: Let_def split: prod.splits sum.splits)
  show "\<exists>r'. add_dns_rules send c caddyIP cid domains r = Inr r'" using assms
    by (induction domains arbitrary: r) (auto split: prod.splits sum.splits)
  show "\<exists>r'. add_nat_rules send c cid rules r = Inr r'" using assms
    by (induction rules arbitrary: r) (auto simp: Let_def split: prod.splits sum.splits)
qed

lemma remove_stopped_no_panic:
  "\<forall>cid \<in> set cids. 12 \<le> length cid \<Longrightarrow> \<exists>r'. remove_stopped send c current cids r = Inr r'"
proof (induction cids arbitrary: r)
  case (Cons cid cids)
  then have "12 \<le> length cid" by simp
  note no_panic = rules_no_panic(1,2) [OF this]
  obtain us s where rem: "RemoveDNS cid (gstate r) = (us, s)" by fastforce
  obtain r1 where r1: "del_dns_rules send c cid us (r\<lparr>gstate := s\<rparr>) = Inr r1" using no_panic(1) by blast
  obtain us' s' where rem': "RemoveNAT cid (gstate r1) = (us', s')" by fastforce
  obtain r2 where "del_nat_rules send c cid us' (r1\<lparr>gstate := s'\<rparr>) = Inr r2" using no_panic(2) by blast
  then have "remove_container send c cid r = Inr r2" using rem r1 rem' by (simp add: remove_container_def)
  then show ?case using Cons by simp
qed simp

lemma add_running_no_panic:
  "\<forall>cid \<in> set cids. 12 \<le> length cid \<Longrightarrow> \<exists>r'. add_running send c caddyIP labelPrefix current cids r = Inr r'"
proof (induction cids arbitrary: r)
  case (Cons cid cids)
  then have len: "12 \<le> length cid" by simp
  have "\<exists>r'. add_container_dns send c caddyIP labelPrefix cid info r = Inr r'" for info r
    using rules_no_panic(3) [OF len] by (auto simp: add_container_dns_def Let_def)
  moreover have "\<exists>r'. add_container_nat send c cid info r = Inr r'" for info r
    using rules_no_panic(4) [OF len] len by (auto simp: add_container_nat_def Let_def)
  ultimately show ?case using Cons by (fastforce split: option.split)
qed simp

section \<open>The ownership state\<close>

lemma ensure_savepoint_gstate [simp]: "gstate (ensure_savepoint send c r) = gstate r"
  by (simp add: ensure_savepoint_def split: prod.split sum.split)

lemma del_rules_gstate:
  "del_dns_rules send c cid us r = Inr r' \<Longrightarrow> gstate r' = gstate r"
  "del_nat_rules send c cid us r = Inr r' \<Longrightarrow> gstate r' = gstate r"
proof -
  show "del_dns_rules send c cid us r = Inr r' \<Longrightarrow> gstate r' = gstate r"
    by (induction us arbitrary: r) (fastforce split: prod.splits sum.splits)+
  show "del_nat_rules send c cid us r = Inr r' \<Longrightarrow> gstate r' = gstate r"
    by (induction us arbitrary: r) (fastforce simp: Let_def split: prod.splits sum.splits)+
qed

lemma remove_container_gstate:
  assumes "remove_container send c cid r = Inr r'"
  shows "dnsUUIDs (gstate r') = (dnsUUIDs (gstate r))(cid := None)"
    and "natUUIDs (gstate r') = (natUUIDs (gstate r))(cid := None)"
  using assms by (auto simp: remove_container_def RemoveDNS_def RemoveNAT_def dest!: del_rules_gstate)

lemma remove_stopped_gstate:
  "remove_stopped send c current cids r = Inr r' \<Longrightarrow>
   dnsUUIDs (gstate r') q = (if q \<in> set cids \<and> current q = None then None else dnsUUIDs (gstate r) q) \<and>
   natUUIDs (gstate r') q = (if q \<in> set cids \<and> current q = None then None else natUUIDs (gstate r) q)"
proof (induction cids arbitrary: r)
  case (Cons cid cids)
  show ?case
  proof (cases "current cid = None")
    case True
    then obtain r1 where r1: "remove_container send c cid r = Inr r1" "remove_stopped send c current cids r1 = Inr r'"
      using Cons.prems by auto
    show ?thesis using Cons.IH [OF r1(2)] remove_container_gstate [OF r1(1)] True by auto
  next
    case False
    then show ?thesis using Cons by auto
  qed
qed simp

lemma add_dns_rules_gstate:
  "add_dns_rules send c caddyIP cid domains r = Inr r' \<Longrightarrow>
   natUUIDs (gstate r') = natUUIDs (gstate r) \<and> (\<forall>q. q \<noteq> cid \<longrightarrow> dnsUUIDs (gstate r') q = dnsUUIDs (gstate r) q)"
proof (induction domains arbitrary: r)
  case (Cons domain domains)
  then show ?case by (fastforce simp: add_uuid_def split: prod.splits sum.splits if_splits)
qed simp

lemma add_nat_rules_gstate:
  "add_nat_rules send c cid rules r = Inr r' \<Longrightarrow>
   dnsUUIDs (gstate r') = dnsUUIDs (gstate r) \<and> (\<forall>q. q \<noteq> cid \<longrightarrow> natUUIDs (gstate r') q = natUUIDs (gstate r) q)"
proof (induction rules arbitrary: r)
  case (Cons rule rules)
  then show ?case by (fastforce simp: Let_def add_uuid_def split: prod.splits sum.splits if_splits)
qed simp

lemma add_container_gstate:
  "add_container_dns send c caddyIP labelPrefix cid info r = Inr r' \<Longrightarrow>
     natUUIDs (gstate r') = natUUIDs (gstate r) \<and>
     (\<forall>q. q \<noteq> cid \<or> HasDNS q (gstate r) \<longrightarrow> dnsUUIDs (gstate r') q = dnsUUIDs (gstate r) q)"
  "add_container_nat send c cid info r = Inr r' \<Longrightarrow>
     dnsUUIDs (gstate r') = dnsUUIDs (gstate r) \<and>
     (\<forall>q. q \<noteq> cid \<or> HasNAT q (gstate r) \<longrightarrow> natUUIDs (gstate r') q = natUUIDs (gstate r) q)"
  by (auto simp: add_container_dns_def add_container_nat_def Let_def
      dest: add_dns_rules_gstate add_nat_rules_gstate split: if_splits)

lemma add_running_gstate:
  "add_running send c caddyIP labelPrefix current cids r = Inr r' \<Longrightarrow>
   (q \<notin> set cids \<or> HasDNS q (gstate r) \<longrightarrow> dnsUUIDs (gstate r') q = dnsUUIDs (gstate r) q) \<and>
   (q \<notin> set cids \<or> HasNAT q (gstate r) \<longrightarrow> natUUIDs (gstate r') q = natUUIDs (gstate r) q)"
proof (induction cids arbitrary: r)
  case (Cons cid cids)
  show ?case
  proof (cases "current cid")
    case None
    then show ?thesis using Cons by auto
  next
    case (Some info)
    then obtain r1 r2 where r1: "add_container_dns send c caddyIP labelPrefix cid info r = Inr r1"
      and r2: "add_container_nat send c cid info r1 = Inr r2"
      and r': "add_running send c caddyIP labelPrefix current cids r2 = Inr r'"
      using Cons.prems by auto
    show ?thesis
      using Cons.IH [OF r'] add_container_gstate(1) [OF r1] add_container_gstate(2) [OF r2]
      by (auto simp: HasDNS_def HasNAT_def uuids_def)
  qed
qed simp

lemma apply_changes_gstate [simp]: "gstate (apply_changes send c r) = gstate r"
  by (simp add: apply_changes_def Let_def)

lemma reconcile_parts:
  assumes "reconcileGateway send c caddyIP labelPrefix hosts known running s w = Inr r'" "Enabled c"
  obtains r1 r2 where
    "remove_stopped send c (collect_current caddyIP hosts Map.empty) known
       \<lparr>world = w, gstate = s, dnsChanged = False, natRevision = []\<rparr> = Inr r1"
    "add_running send c caddyIP labelPrefix (collect_current caddyIP hosts Map.empty) running r1 = Inr r2"
    "r' = apply_changes send c r2"
  using assms by (auto simp: reconcileGateway_def Let_def)

text \<open>After reconciling, every container with rules is running, and rules known before of a
  running container are still known.\<close>

lemma reconcile_tracks_running:
  assumes "reconcileGateway send c caddyIP labelPrefix hosts known running s w = Inr r'" "Enabled c"
    and "iteration_orders caddyIP hosts s known running"
  shows "dom (dnsUUIDs (gstate r')) \<union> dom (natUUIDs (gstate r')) \<subseteq> dom (collect_current caddyIP hosts Map.empty)"
proof
  fix q assume q: "q \<in> dom (dnsUUIDs (gstate r')) \<union> dom (natUUIDs (gstate r'))"
  let ?cur = "collect_current caddyIP hosts Map.empty"
  show "q \<in> dom ?cur"
  proof (rule ccontr)
    assume "q \<notin> dom ?cur"
    then have none: "?cur q = None" and not_running: "q \<notin> set running"
      using assms(3) by (auto simp: iteration_orders_def)
    from reconcile_parts [OF assms(1,2)] obtain r1 r2 where r:
      "remove_stopped send c ?cur known \<lparr>world = w, gstate = s, dnsChanged = False, natRevision = []\<rparr> = Inr r1"
      "add_running send c caddyIP labelPrefix ?cur running r1 = Inr r2" "r' = apply_changes send c r2" by metis
    have "dnsUUIDs (gstate r1) q = None \<and> natUUIDs (gstate r1) q = None"
      using remove_stopped_gstate [OF r(1), of q] none assms(3)
      by (auto simp: iteration_orders_def KnownContainerIDs_def)
    then show False
      using add_running_gstate [OF r(2), of q] not_running q r(3) by auto
  qed
qed

lemma reconcile_keeps:
  assumes "reconcileGateway send c caddyIP labelPrefix hosts known running s w = Inr r'"
    and "cid \<in> dom (collect_current caddyIP hosts Map.empty)"
  shows "HasDNS cid s \<longrightarrow> dnsUUIDs (gstate r') cid = dnsUUIDs s cid"
    and "HasNAT cid s \<longrightarrow> natUUIDs (gstate r') cid = natUUIDs s cid"
proof -
  let ?cur = "collect_current caddyIP hosts Map.empty"
  have "(HasDNS cid s \<longrightarrow> dnsUUIDs (gstate r') cid = dnsUUIDs s cid) \<and>
        (HasNAT cid s \<longrightarrow> natUUIDs (gstate r') cid = natUUIDs s cid)"
  proof (cases "Enabled c")
    case True
    from reconcile_parts [OF assms(1) this] obtain r1 r2 where r:
      "remove_stopped send c ?cur known \<lparr>world = w, gstate = s, dnsChanged = False, natRevision = []\<rparr> = Inr r1"
      "add_running send c caddyIP labelPrefix ?cur running r1 = Inr r2" "r' = apply_changes send c r2" by metis
    have "dnsUUIDs (gstate r1) cid = dnsUUIDs s cid \<and> natUUIDs (gstate r1) cid = natUUIDs s cid"
      using remove_stopped_gstate [OF r(1), of cid] assms(2) by auto
    then show ?thesis
      using add_running_gstate [OF r(2), of cid] r(3) by (auto simp: HasDNS_def HasNAT_def uuids_def)
  next
    case False
    then show ?thesis using assms(1) by (auto simp: reconcileGateway_def)
  qed
  then show "HasDNS cid s \<longrightarrow> dnsUUIDs (gstate r') cid = dnsUUIDs s cid"
    and "HasNAT cid s \<longrightarrow> natUUIDs (gstate r') cid = natUUIDs s cid" by blast+
qed

end
