(* ===== verification/ReconcileTrace.thy ===== *)
theory ReconcileTrace
  imports ReconcileLaws
begin

text \<open>
  The requests reconciling sends to the firewall: what is deleted, in which order NAT rules and
  savepoints come, and when nothing is sent at all.
\<close>

section \<open>Observing requests\<close>

definition logged :: "'v sender \<Rightarrow> ('v \<times> request list) sender" where
  "logged send req w = (case send req (fst w) of (x, v) \<Rightarrow> (x, v, snd w @ [req]))"

abbreviation sent :: "('v \<times> request list) rec_state \<Rightarrow> request list" where
  "sent r \<equiv> snd (world r)"

definition del_dns_req :: "Client \<Rightarrow> string \<Rightarrow> request" where
  "del_dns_req c uuid = newPOST c (''/api/unbound/settings/del_host_override/'' @ uuid) NoBody"

definition del_nat_req :: "Client \<Rightarrow> string \<Rightarrow> request" where
  "del_nat_req c uuid = newPOST c (''/api/firewall/d_nat/del_rule/'' @ uuid) NoBody"

definition savepoint_req :: "Client \<Rightarrow> request" where
  "savepoint_req c = newPOST c ''/api/firewall/filter_base/savepoint'' NoBody"

definition apply_req :: "Client \<Rightarrow> string \<Rightarrow> request" where
  "apply_req c revision = newPOST c (''/api/firewall/filter_base/apply/'' @ revision) NoBody"

definition is_delete :: "Client \<Rightarrow> request \<Rightarrow> bool" where
  "is_delete c q \<longleftrightarrow>
     HasPrefix (URL q) (baseURL c @ ''/api/unbound/settings/del_host_override/'') \<or>
     HasPrefix (URL q) (baseURL c @ ''/api/firewall/d_nat/del_rule/'')"

definition is_nat_change :: "Client \<Rightarrow> request \<Rightarrow> bool" where
  "is_nat_change c q \<longleftrightarrow> HasPrefix (URL q) (baseURL c @ ''/api/firewall/d_nat/'')"

definition is_apply :: "Client \<Rightarrow> request \<Rightarrow> bool" where
  "is_apply c q \<longleftrightarrow> HasPrefix (URL q) (baseURL c @ ''/api/firewall/filter_base/apply/'')"

abbreviation deletes :: "Client \<Rightarrow> ('v \<times> request list) rec_state \<Rightarrow> request list" where
  "deletes c r \<equiv> filter (is_delete c) (sent r)"

lemma HasPrefix_same [simp]: "HasPrefix (a @ s) (a @ p) = HasPrefix s p"
  by (simp add: HasPrefix_def)

lemma do_request_sent [simp]: "snd (snd (do_request (logged send) req what k w)) = snd w @ [req]"
  by (simp add: do_request_def logged_def split: prod.split sum.split)

lemma pair_sent: "x = (y, w') \<Longrightarrow> snd (snd x) = tr \<Longrightarrow> snd w' = tr"
  by simp

lemma dns_sent:
  "DelHostOverride (logged send) c u w = (x, w') \<Longrightarrow> snd w' = snd w @ [del_dns_req c u]"
  "AddHostOverride (logged send) c h d ip desc w = (y, w') \<Longrightarrow>
     \<exists>q. snd w' = snd w @ [q] \<and> \<not> is_delete c q \<and> \<not> is_nat_change c q \<and> \<not> is_apply c q"
  "snd (snd (ReconfigureUnbound (logged send) c w)) = snd w @ [newPOST c ''/api/unbound/service/reconfigure'' NoBody]"
proof -
  show "DelHostOverride (logged send) c u w = (x, w') \<Longrightarrow> snd w' = snd w @ [del_dns_req c u]"
    by (erule pair_sent) (simp add: DelHostOverride_def del_dns_req_def)
  show "\<exists>q. snd w' = snd w @ [q] \<and> \<not> is_delete c q \<and> \<not> is_nat_change c q \<and> \<not> is_apply c q"
    if "AddHostOverride (logged send) c h d ip desc w = (y, w')"
    using pair_sent [OF that refl]
    by (simp add: AddHostOverride_def Let_def is_delete_def is_nat_change_def is_apply_def newPOST_def HasPrefix_def)
  show "snd (snd (ReconfigureUnbound (logged send) c w)) = snd w @ [newPOST c ''/api/unbound/service/reconfigure'' NoBody]"
    by (simp add: ReconfigureUnbound_def)
qed

lemma nat_sent:
  "DelNATRule (logged send) c u w = (x, w') \<Longrightarrow> snd w' = snd w @ [del_nat_req c u]"
  "AddNATRule (logged send) c rule w = (y, w') \<Longrightarrow>
     \<exists>q. snd w' = snd w @ [q] \<and> \<not> is_delete c q \<and> is_nat_change c q \<and> \<not> is_apply c q"
  "Savepoint (logged send) c w = (y, w') \<Longrightarrow> snd w' = snd w @ [savepoint_req c]"
  "snd (snd (Apply (logged send) c revision w)) = snd w @ [apply_req c revision]"
proof -
  show "DelNATRule (logged send) c u w = (x, w') \<Longrightarrow> snd w' = snd w @ [del_nat_req c u]"
    by (erule pair_sent) (simp add: DelNATRule_def del_nat_req_def)
  show "\<exists>q. snd w' = snd w @ [q] \<and> \<not> is_delete c q \<and> is_nat_change c q \<and> \<not> is_apply c q"
    if "AddNATRule (logged send) c rule w = (y, w')"
    using pair_sent [OF that refl]
    by (simp add: AddNATRule_def is_delete_def is_nat_change_def is_apply_def newPOST_def HasPrefix_def)
  show "Savepoint (logged send) c w = (y, w') \<Longrightarrow> snd w' = snd w @ [savepoint_req c]"
    by (erule pair_sent) (simp add: Savepoint_def savepoint_req_def)
  show "snd (snd (Apply (logged send) c revision w)) = snd w @ [apply_req c revision]"
    by (simp add: Apply_def apply_req_def)
qed

lemma request_kinds [simp]:
  "is_delete c (del_dns_req c u)" "is_delete c (del_nat_req c u)" "\<not> is_delete c (savepoint_req c)"
  "\<not> is_delete c (apply_req c revision)" "\<not> is_delete c (newPOST c ''/api/unbound/service/reconfigure'' NoBody)"
  "\<not> is_nat_change c (del_dns_req c u)" "is_nat_change c (del_nat_req c u)" "\<not> is_nat_change c (savepoint_req c)"
  "\<not> is_nat_change c (apply_req c revision)" "\<not> is_nat_change c (newPOST c ''/api/unbound/service/reconfigure'' NoBody)"
  "\<not> is_apply c (del_dns_req c u)" "\<not> is_apply c (del_nat_req c u)" "\<not> is_apply c (savepoint_req c)"
  "is_apply c (apply_req c revision)" "\<not> is_apply c (newPOST c ''/api/unbound/service/reconfigure'' NoBody)"
  by (simp_all add: is_delete_def is_nat_change_def is_apply_def del_dns_req_def del_nat_req_def
      savepoint_req_def apply_req_def newPOST_def HasPrefix_def)

lemma ensure_savepoint_sent:
  "sent (ensure_savepoint (logged send) c r) = sent r @ (if natRevision r = [] then [savepoint_req c] else [])"
  using nat_sent(3) by (fastforce simp: ensure_savepoint_def split: prod.split sum.split)

lemma apply_changes_sent:
  "sent (apply_changes (logged send) c r) =
     sent r @ (if dnsChanged r then [newPOST c ''/api/unbound/service/reconfigure'' NoBody] else []) @
     (if natRevision r \<noteq> [] then [apply_req c (natRevision r)] else [])"
  by (simp add: apply_changes_def Let_def dns_sent(3) nat_sent(4))

section \<open>What is deleted\<close>

lemma del_rules_deletes:
  "del_dns_rules (logged send) c cid us r = Inr r' \<Longrightarrow> deletes c r' = deletes c r @ map (del_dns_req c) us"
  "del_nat_rules (logged send) c cid us r = Inr r' \<Longrightarrow> deletes c r' = deletes c r @ map (del_nat_req c) us"
proof -
  show "del_dns_rules (logged send) c cid us r = Inr r' \<Longrightarrow> deletes c r' = deletes c r @ map (del_dns_req c) us"
  proof (induction us arbitrary: r)
    case (Cons u us)
    then show ?case by (fastforce split: prod.splits sum.splits dest: dns_sent(1))
  qed simp
  show "del_nat_rules (logged send) c cid us r = Inr r' \<Longrightarrow> deletes c r' = deletes c r @ map (del_nat_req c) us"
  proof (induction us arbitrary: r)
    case (Cons u us)
    obtain x w where d: "DelNATRule (logged send) c u (world (ensure_savepoint (logged send) c r)) = (x, w)"
      by (metis surj_pair)
    then have "del_nat_rules (logged send) c cid us ((ensure_savepoint (logged send) c r)\<lparr>world := w\<rparr>) = Inr r'"
      using Cons.prems by (auto simp: Let_def split: sum.splits)
    from Cons.IH [OF this] show ?case using nat_sent(1) [OF d] by (simp add: ensure_savepoint_sent)
  qed simp
qed

definition container_deletes :: "Client \<Rightarrow> State \<Rightarrow> string \<Rightarrow> request list" where
  "container_deletes c s cid =
     map (del_dns_req c) (uuids (dnsUUIDs s) cid) @ map (del_nat_req c) (uuids (natUUIDs s) cid)"

lemma remove_stopped_deletes:
  "remove_stopped (logged send) c current cids r = Inr r' \<Longrightarrow> distinct cids \<Longrightarrow>
   deletes c r' = deletes c r @ concat (map (container_deletes c (gstate r)) (filter (\<lambda>cid. current cid = None) cids))"
proof (induction cids arbitrary: r)
  case (Cons cid cids)
  show ?case
  proof (cases "current cid = None")
    case True
    then obtain r1 where r1: "remove_container (logged send) c cid r = Inr r1"
        "remove_stopped (logged send) c current cids r1 = Inr r'"
      using Cons.prems by auto
    obtain r0 where "del_dns_rules (logged send) c cid (uuids (dnsUUIDs (gstate r)) cid)
        (r\<lparr>gstate := snd (RemoveDNS cid (gstate r))\<rparr>) = Inr r0"
        "del_nat_rules (logged send) c cid (uuids (natUUIDs (gstate r0)) cid)
        (r0\<lparr>gstate := snd (RemoveNAT cid (gstate r0))\<rparr>) = Inr r1"
      using r1(1) by (auto simp: remove_container_def RemoveDNS_def RemoveNAT_def)
    from del_rules_deletes(1) [OF this(1)] del_rules_deletes(2) [OF this(2)] del_rules_gstate(1) [OF this(1)]
    have r1d: "deletes c r1 = deletes c r @ container_deletes c (gstate r) cid"
      by (simp add: container_deletes_def)
    have m: "map (container_deletes c (gstate r1)) (filter (\<lambda>cid. current cid = None) cids) =
        map (container_deletes c (gstate r)) (filter (\<lambda>cid. current cid = None) cids)"
    proof (rule map_cong [OF refl])
      fix q assume "q \<in> set (filter (\<lambda>cid. current cid = None) cids)"
      then have "q \<noteq> cid" using Cons.prems(2) by auto
      then show "container_deletes c (gstate r1) q = container_deletes c (gstate r) q"
        using remove_container_gstate [OF r1(1)] by (simp add: container_deletes_def uuids_def)
    qed
    have "distinct cids" using Cons.prems(2) by simp
    from Cons.IH [OF r1(2) this] show ?thesis unfolding m r1d using True by simp
  next
    case False
    then show ?thesis using Cons by auto
  qed
qed simp

lemma add_rules_deletes:
  "add_dns_rules (logged send) c caddyIP cid domains r = Inr r' \<Longrightarrow> deletes c r' = deletes c r"
  "add_nat_rules (logged send) c cid rules r = Inr r' \<Longrightarrow> deletes c r' = deletes c r"
proof -
  show "add_dns_rules (logged send) c caddyIP cid domains r = Inr r' \<Longrightarrow> deletes c r' = deletes c r"
    by (induction domains arbitrary: r) (fastforce split: prod.splits sum.splits if_splits dest: dns_sent(2))+
  show "add_nat_rules (logged send) c cid rules r = Inr r' \<Longrightarrow> deletes c r' = deletes c r"
  proof (induction rules arbitrary: r)
    case (Cons rule rules)
    obtain x w where d: "AddNATRule (logged send) c rule (world (ensure_savepoint (logged send) c r)) = (x, w)"
      by (metis surj_pair)
    then obtain r1 where "add_nat_rules (logged send) c cid rules r1 = Inr r'" "world r1 = w"
      using Cons.prems by (auto simp: Let_def split: sum.splits)
    then show ?case using Cons.IH nat_sent(2) [OF d] by (fastforce simp: ensure_savepoint_sent)
  qed simp
qed

lemma add_running_deletes:
  "add_running (logged send) c caddyIP labelPrefix current cids r = Inr r' \<Longrightarrow> deletes c r' = deletes c r"
proof (induction cids arbitrary: r)
  case (Cons cid cids)
  then show ?case
    by (auto simp: add_container_dns_def add_container_nat_def Let_def
        dest!: add_rules_deletes split: option.splits if_splits)
qed simp

lemma reconcile_deletes:
  assumes "reconcileGateway (logged send) c caddyIP labelPrefix hosts known running s (v, []) = Inr r'" "Enabled c"
    and "iteration_orders caddyIP hosts s known running"
  shows "deletes c r' = concat (map (container_deletes c s)
    (filter (\<lambda>cid. collect_current caddyIP hosts Map.empty cid = None) known))"
proof -
  let ?cur = "collect_current caddyIP hosts Map.empty"
  from reconcile_parts [OF assms(1,2)] obtain r1 r2 where r:
    "remove_stopped (logged send) c ?cur known \<lparr>world = (v, []), gstate = s, dnsChanged = False, natRevision = []\<rparr> = Inr r1"
    "add_running (logged send) c caddyIP labelPrefix ?cur running r1 = Inr r2"
    "r' = apply_changes (logged send) c r2" by metis
  have "distinct known" using assms(3) by (simp add: iteration_orders_def KnownContainerIDs_def)
  from remove_stopped_deletes [OF r(1) this] add_running_deletes [OF r(2)] show ?thesis
    by (simp add: r(3) apply_changes_sent)
qed

section \<open>Savepoints come before NAT changes\<close>

text \<open>
  Invariants of the loops: what every call keeps, the loops keep. A NAT call always follows
  \<open>ensure_savepoint\<close>.
\<close>

definition holds :: "('w rec_state \<Rightarrow> bool) \<Rightarrow> 'w outcome \<Rightarrow> bool" where
  "holds I x = (case x of Inl r \<Rightarrow> I r | Inr r \<Rightarrow> I r)"

lemma holds_simps [simp]: "holds I (Inr r) = I r" "holds I (Inl r) = I r"
  by (simp_all add: holds_def)

lemma holds_and_then: "holds I x \<Longrightarrow> (\<And>r. I r \<Longrightarrow> holds I (f r)) \<Longrightarrow> holds I (and_then x f)"
  by (cases x) (simp_all add: and_then_def)

lemma holds_log_id: "I r \<Longrightarrow> holds I (log_id cid r)"
  by (simp add: log_id_def)

locale call_invariant =
  fixes send :: "'w sender" and c :: Client and I :: "'w rec_state \<Rightarrow> bool"
  assumes I_state: "I r \<Longrightarrow> I (r\<lparr>gstate := s\<rparr>)"
    and I_flag: "I r \<Longrightarrow> I (r\<lparr>dnsChanged := b\<rparr>)"
    and I_del_dns: "I r \<Longrightarrow> DelHostOverride send c u (world r) = (x, w) \<Longrightarrow> I (r\<lparr>world := w\<rparr>)"
    and I_add_dns: "I r \<Longrightarrow> AddHostOverride send c h d ip desc (world r) = (y, w) \<Longrightarrow> I (r\<lparr>world := w\<rparr>)"
    and I_del_nat: "I r \<Longrightarrow> DelNATRule send c u (world (ensure_savepoint send c r)) = (x, w) \<Longrightarrow>
      I ((ensure_savepoint send c r)\<lparr>world := w\<rparr>)"
    and I_add_nat: "I r \<Longrightarrow> AddNATRule send c rule (world (ensure_savepoint send c r)) = (y, w) \<Longrightarrow>
      I ((ensure_savepoint send c r)\<lparr>world := w\<rparr>)"
begin

lemma holds_del_dns_rules: "I r \<Longrightarrow> holds I (del_dns_rules send c cid us r)"
proof (induction us arbitrary: r)
  case (Cons u us)
  obtain x w where x: "DelHostOverride send c u (world r) = (x, w)" by (metis surj_pair)
  have "I (r\<lparr>world := w\<rparr>)" using I_del_dns [OF Cons.prems x] .
  then show ?case using x Cons.IH I_flag [of "r\<lparr>world := w\<rparr>"]
    by (auto split: sum.split intro!: holds_and_then holds_log_id)
qed simp

lemma holds_del_nat_rules: "I r \<Longrightarrow> holds I (del_nat_rules send c cid us r)"
proof (induction us arbitrary: r)
  case (Cons u us)
  obtain x w where x: "DelNATRule send c u (world (ensure_savepoint send c r)) = (x, w)" by (metis surj_pair)
  have "I ((ensure_savepoint send c r)\<lparr>world := w\<rparr>)" using I_del_nat [OF Cons.prems x] .
  then show ?case using x Cons.IH
    by (auto simp: Let_def split: sum.split intro!: holds_and_then holds_log_id)
qed simp

lemma holds_remove_stopped: "I r \<Longrightarrow> holds I (remove_stopped send c current cids r)"
proof (induction cids arbitrary: r)
  case (Cons cid cids)
  have "holds I (remove_container send c cid r)"
    unfolding remove_container_def using Cons.prems
    by (auto split: prod.split intro!: holds_and_then holds_del_dns_rules holds_del_nat_rules I_state)
  then show ?case using Cons by (auto intro!: holds_and_then)
qed simp

lemma holds_add_dns_rules: "I r \<Longrightarrow> holds I (add_dns_rules send c caddyIP cid domains r)"
proof (induction domains arbitrary: r)
  case (Cons domain domains)
  obtain h d ok where sd: "splitDomain domain = (h, d, ok)" by (metis surj_pair)
  obtain y w where y: "AddHostOverride send c h d caddyIP (MakeDescription cid []) (world r) = (y, w)"
    by (metis surj_pair)
  have "I (r\<lparr>world := w\<rparr>)" using I_add_dns [OF Cons.prems y] .
  then have "I (r\<lparr>world := w\<rparr>)" "\<And>s. I (r\<lparr>world := w, gstate := s, dnsChanged := True\<rparr>)"
    using I_flag [OF I_state [of "r\<lparr>world := w\<rparr>"]] by simp_all
  then show ?case using sd y Cons
    by (auto split: sum.split intro!: holds_and_then holds_log_id)
qed simp

lemma holds_add_nat_rules: "I r \<Longrightarrow> holds I (add_nat_rules send c cid rules r)"
proof (induction rules arbitrary: r)
  case (Cons rule rules)
  obtain y w where y: "AddNATRule send c rule (world (ensure_savepoint send c r)) = (y, w)" by (metis surj_pair)
  have "I ((ensure_savepoint send c r)\<lparr>world := w\<rparr>)" using I_add_nat [OF Cons.prems y] .
  then have "I ((ensure_savepoint send c r)\<lparr>world := w\<rparr>)" "\<And>s. I ((ensure_savepoint send c r)\<lparr>world := w, gstate := s\<rparr>)"
    using I_state [of "(ensure_savepoint send c r)\<lparr>world := w\<rparr>"] by simp_all
  then show ?case using y Cons.IH
    by (auto simp: Let_def split: sum.split intro!: holds_and_then holds_log_id)
qed simp

lemma holds_add_running: "I r \<Longrightarrow> holds I (add_running send c caddyIP labelPrefix current cids r)"
proof (induction cids arbitrary: r)
  case (Cons cid cids)
  have "holds I (add_container_dns send c caddyIP labelPrefix cid info r)" if "I r" for info r
    using that holds_add_dns_rules by (simp add: add_container_dns_def Let_def)
  moreover have "holds I (add_container_nat send c cid info r)" if "I r" for info r
    using that by (auto simp: add_container_nat_def Let_def intro: holds_add_nat_rules holds_log_id)
  ultimately show ?case using Cons by (auto split: option.split intro!: holds_and_then)
qed simp

lemma reconcile_holds:
  assumes "I \<lparr>world = w, gstate = s, dnsChanged = False, natRevision = []\<rparr>" "Enabled c"
    and "reconcileGateway send c caddyIP labelPrefix hosts known running s w = Inr r'"
  shows "\<exists>r. I r \<and> r' = apply_changes send c r"
proof -
  let ?cur = "collect_current caddyIP hosts Map.empty"
  from reconcile_parts [OF assms(3,2)] obtain r1 r2 where r:
    "remove_stopped send c ?cur known \<lparr>world = w, gstate = s, dnsChanged = False, natRevision = []\<rparr> = Inr r1"
    "add_running send c caddyIP labelPrefix ?cur running r1 = Inr r2" "r' = apply_changes send c r2" by metis
  have "I r1" using holds_remove_stopped [OF assms(1), of ?cur known] r(1) by simp
  then have "I r2" using holds_add_running [of r1 caddyIP labelPrefix ?cur running] r(2) by simp
  with r(3) show ?thesis by blast
qed

end

text \<open>In a list of requests, every NAT change comes after a savepoint.\<close>

definition savepoint_first :: "Client \<Rightarrow> request list \<Rightarrow> bool" where
  "savepoint_first c tr \<longleftrightarrow> (\<forall>xs q ys. tr = xs @ q # ys \<and> is_nat_change c q \<longrightarrow> savepoint_req c \<in> set xs)"

lemma savepoint_first_Nil [simp]: "savepoint_first c []"
  by (simp add: savepoint_first_def)

lemma savepoint_first_snoc:
  "savepoint_first c tr \<Longrightarrow> \<not> is_nat_change c q \<or> savepoint_req c \<in> set tr \<Longrightarrow> savepoint_first c (tr @ [q])"
  unfolding savepoint_first_def by (auto simp: append_eq_append_conv2 append_eq_Cons_conv Cons_eq_append_conv)

lemma savepoint_first_append:
  "savepoint_first c tr \<Longrightarrow> \<forall>q \<in> set qs. \<not> is_nat_change c q \<Longrightarrow> savepoint_first c (tr @ qs)"
  by (induction qs rule: rev_induct) (auto simp flip: append_assoc intro: savepoint_first_snoc)

definition nat_protocol :: "Client \<Rightarrow> ('v \<times> request list) rec_state \<Rightarrow> bool" where
  "nat_protocol c r \<longleftrightarrow>
     savepoint_first c (sent r) \<and> (natRevision r \<noteq> [] \<longrightarrow> savepoint_req c \<in> set (sent r)) \<and>
     (\<forall>q \<in> set (sent r). \<not> is_apply c q)"

lemma nat_protocol_ensure:
  assumes "nat_protocol c r"
  shows "nat_protocol c (ensure_savepoint (logged send) c r)"
    and "savepoint_req c \<in> set (sent (ensure_savepoint (logged send) c r))"
  using assms by (auto simp: nat_protocol_def ensure_savepoint_sent intro: savepoint_first_snoc)

lemma nat_protocol_step:
  assumes "nat_protocol c r" "snd w = sent r @ [q]" "\<not> is_nat_change c q \<or> savepoint_req c \<in> set (sent r)" "\<not> is_apply c q"
  shows "nat_protocol c (r\<lparr>world := w\<rparr>)"
  using assms by (auto simp: nat_protocol_def intro: savepoint_first_snoc)

interpretation savepoints: call_invariant "logged send" c "nat_protocol c" for send c
proof unfold_locales
  fix r :: "('a \<times> request list) rec_state" and u x w
  assume r: "nat_protocol c r"
  show "DelHostOverride (logged send) c u (world r) = (x, w) \<Longrightarrow> nat_protocol c (r\<lparr>world := w\<rparr>)"
    by (drule dns_sent(1)) (rule nat_protocol_step [OF r], auto)
  show "DelNATRule (logged send) c u (world (ensure_savepoint (logged send) c r)) = (x, w) \<Longrightarrow>
      nat_protocol c (ensure_savepoint (logged send) c r\<lparr>world := w\<rparr>)"
    by (drule nat_sent(1)) (rule nat_protocol_step [OF nat_protocol_ensure(1) [OF r]], auto simp: nat_protocol_ensure(2) [OF r])
next
  fix r :: "('a \<times> request list) rec_state" and h d ip desc rule y w
  assume r: "nat_protocol c r"
  show "AddHostOverride (logged send) c h d ip desc (world r) = (y, w) \<Longrightarrow> nat_protocol c (r\<lparr>world := w\<rparr>)"
    using dns_sent(2) nat_protocol_step [OF r] by metis
  show "AddNATRule (logged send) c rule (world (ensure_savepoint (logged send) c r)) = (y, w) \<Longrightarrow>
      nat_protocol c (ensure_savepoint (logged send) c r\<lparr>world := w\<rparr>)"
    using nat_sent(2) nat_protocol_step [OF nat_protocol_ensure(1) [OF r]] nat_protocol_ensure(2) [OF r] by metis
qed (simp_all add: nat_protocol_def)

end
