(* ===== verification/ReconcileStable.thy ===== *)
theory ReconcileStable
  imports ReconcileTrace
begin

text \<open>
  Consequences for a whole run of \<open>reconcileGateway\<close>: the order of the requests, what happens when
  savepoints fail, and that a run that met no error leaves nothing to do for the next one.
\<close>

section \<open>The order of the requests\<close>

lemma reconcile_returns:
  assumes "\<forall>cid \<in> set known \<union> set running. 12 \<le> length cid"
  shows "\<exists>r'. reconcileGateway send c caddyIP labelPrefix hosts known running s w = Inr r'"
proof -
  let ?r = "\<lparr>world = w, gstate = s, dnsChanged = False, natRevision = []\<rparr>"
  let ?cur = "collect_current caddyIP hosts Map.empty"
  obtain r1 where "remove_stopped send c ?cur known ?r = Inr r1"
    using remove_stopped_no_panic [of known] assms by blast
  moreover obtain r2 where "add_running send c caddyIP labelPrefix ?cur running r1 = Inr r2"
    using add_running_no_panic [of running] assms by blast
  ultimately show ?thesis by (simp add: reconcileGateway_def Let_def and_then_simps)
qed

lemma apply_changes_revision [simp]: "natRevision (apply_changes send c r) = natRevision r"
  by (simp add: apply_changes_def Let_def)

lemma nat_protocol_start [simp]:
  "nat_protocol c \<lparr>world = (v, []), gstate = s, dnsChanged = False, natRevision = []\<rparr>"
  by (simp add: nat_protocol_def)

lemma reconcile_protocol:
  assumes "reconcileGateway (logged send) c caddyIP labelPrefix hosts known running s (v, []) = Inr r'" "Enabled c"
  shows "savepoint_first c (sent r')"
    and "\<exists>tr. (\<forall>q \<in> set tr. \<not> is_apply c q) \<and>
      sent r' = tr @ (if natRevision r' = [] then [] else [apply_req c (natRevision r')])"
proof -
  from savepoints.reconcile_holds [OF nat_protocol_start assms(2,1)] obtain r where
    r: "nat_protocol c r" "r' = apply_changes (logged send) c r" by blast
  then show "savepoint_first c (sent r')"
    by (auto simp: apply_changes_sent nat_protocol_def intro!: savepoint_first_append)
  show "\<exists>tr. (\<forall>q \<in> set tr. \<not> is_apply c q) \<and>
      sent r' = tr @ (if natRevision r' = [] then [] else [apply_req c (natRevision r')])"
    using r by (intro exI [of _ "sent r @ (if dnsChanged r then [newPOST c ''/api/unbound/service/reconfigure'' NoBody] else [])"])
      (auto simp: apply_changes_sent nat_protocol_def)
qed

section \<open>When savepoints fail\<close>

text \<open>The error of \<open>Savepoint\<close> is dropped, and without a revision nothing is applied.\<close>

definition savepoints_fail :: "'w sender \<Rightarrow> Client \<Rightarrow> bool" where
  "savepoints_fail send c \<longleftrightarrow> (\<forall>w. \<exists>e w'. send (savepoint_req c) w = (Inl e, w'))"

lemma savepoint_failed:
  assumes "savepoints_fail send c" "natRevision r = []"
  shows "natRevision (ensure_savepoint send c r) = []"
proof -
  obtain e w' where "send (savepoint_req c) (world r) = (Inl e, w')"
    using assms(1) unfolding savepoints_fail_def by blast
  then show ?thesis
    by (simp add: ensure_savepoint_def Savepoint_def do_request_def savepoint_req_def assms(2))
qed

lemma no_revision:
  assumes "savepoints_fail send c"
  shows "call_invariant send c (\<lambda>r. natRevision r = [])"
  by unfold_locales (simp_all add: savepoint_failed [OF assms])

lemma reconcile_never_applies:
  assumes "savepoints_fail (logged send) c" "Enabled c"
    and "reconcileGateway (logged send) c caddyIP labelPrefix hosts known running s (v, []) = Inr r'"
  shows "\<forall>q \<in> set (sent r'). \<not> is_apply c q"
proof -
  from call_invariant.reconcile_holds [OF no_revision [OF assms(1)] _ assms(2,3)]
  have "natRevision r' = []" by auto
  with reconcile_protocol(2) [OF assms(3,2)] show ?thesis by auto
qed

section \<open>Nothing left to do\<close>

definition valid_domain :: "string \<Rightarrow> bool" where
  "valid_domain d \<longleftrightarrow> (case splitDomain d of (_, _, ok) \<Rightarrow> ok)"

definition dns_settled :: "string \<Rightarrow> string \<Rightarrow> string \<Rightarrow> containerInfo \<Rightarrow> State \<Rightarrow> bool" where
  "dns_settled caddyIP labelPrefix cid info s \<longleftrightarrow>
     HasDNS cid s \<or> (let ds = extractDNSTargets (ci_labels info) labelPrefix in
       (ds \<noteq> [] \<and> caddyIP = []) \<or> (\<forall>d \<in> set ds. \<not> valid_domain d))"

definition nat_settled :: "string \<Rightarrow> containerInfo \<Rightarrow> State \<Rightarrow> bool" where
  "nat_settled cid info s \<longleftrightarrow>
     HasNAT cid s \<or> buildNATRules (ci_labels info) (ci_hostIP info) cid = [] \<or> ci_hostIP info = []"

lemma add_no_domains:
  "\<forall>d \<in> set ds. \<not> valid_domain d \<Longrightarrow> add_dns_rules send c caddyIP cid ds r = Inr r"
  by (induction ds) (auto simp: valid_domain_def split: prod.splits)

lemma add_running_settled:
  assumes "\<forall>cid \<in> set cids. 12 \<le> length cid"
    and "\<forall>cid \<in> set cids. \<forall>info. current cid = Some info \<longrightarrow>
      dns_settled caddyIP labelPrefix cid info (gstate r) \<and> nat_settled cid info (gstate r)"
  shows "add_running send c caddyIP labelPrefix current cids r = Inr r"
  using assms
proof (induction cids)
  case (Cons cid cids)
  have "add_container_dns send c caddyIP labelPrefix cid info r = Inr r"
    "add_container_nat send c cid info r = Inr r" if "current cid = Some info" for info
    using Cons.prems that
    by (auto simp: add_container_dns_def add_container_nat_def dns_settled_def nat_settled_def Let_def add_no_domains)
  then show ?case using Cons by (simp split: option.split)
qed simp

lemma remove_stopped_none: "\<forall>cid \<in> set cids. current cid \<noteq> None \<Longrightarrow> remove_stopped send c current cids r = Inr r"
  by (induction cids) auto

lemma reconcile_settled:
  assumes "iteration_orders caddyIP hosts s known running"
    and "\<forall>cid \<in> set running. 12 \<le> length cid"
    and "set known \<subseteq> set running"
    and "\<forall>cid \<in> set running. \<forall>info. collect_current caddyIP hosts Map.empty cid = Some info \<longrightarrow>
      dns_settled caddyIP labelPrefix cid info s \<and> nat_settled cid info s"
  shows "reconcileGateway send c caddyIP labelPrefix hosts known running s w =
    Inr \<lparr>world = w, gstate = s, dnsChanged = False, natRevision = []\<rparr>"
proof -
  let ?r = "\<lparr>world = w, gstate = s, dnsChanged = False, natRevision = []\<rparr>"
  let ?cur = "collect_current caddyIP hosts Map.empty"
  have "\<forall>cid \<in> set known. ?cur cid \<noteq> None" using assms(1,3) by (auto simp: iteration_orders_def)
  then have "remove_stopped send c ?cur known ?r = Inr ?r" by (rule remove_stopped_none)
  moreover have "add_running send c caddyIP labelPrefix ?cur running ?r = Inr ?r"
    by (rule add_running_settled) (use assms in simp_all)
  ultimately show ?thesis
    by (simp add: reconcileGateway_def Let_def and_then_simps apply_changes_def)
qed

section \<open>Convergence\<close>

text \<open>A firewall that answers every request, with a UUID and a revision where they are asked for.\<close>

definition answers :: "'w sender \<Rightarrow> bool" where
  "answers send \<longleftrightarrow> (\<forall>req w. \<exists>res w'. send req w = (Inr res, w') \<and> res_UUID res \<noteq> [] \<and> res_revision res \<noteq> [])"

lemma answers_do_request:
  assumes "answers send" "do_request send req what k w = (x, w')" "\<And>res. res_UUID res \<noteq> [] \<Longrightarrow> \<exists>y. k res = Inr y"
  shows "\<exists>y. x = Inr y"
proof -
  obtain res w1 where "send req w = (Inr res, w1)" "res_UUID res \<noteq> []" using assms(1) unfolding answers_def by blast
  then show ?thesis using assms(2,3) by (auto simp: do_request_def)
qed

lemma answers_add:
  assumes "answers send"
  shows "AddHostOverride send c h d ip desc w = (x, w') \<Longrightarrow> \<exists>y. x = Inr y"
    and "AddNATRule send c rule w = (x, w') \<Longrightarrow> \<exists>y. x = Inr y"
  using answers_do_request [OF assms]
  by (fastforce simp: AddHostOverride_def AddNATRule_def Let_def)+

lemma add_dns_rules_keeps: "add_dns_rules send c caddyIP cid ds r = Inr r' \<Longrightarrow> HasDNS q (gstate r) \<Longrightarrow> HasDNS q (gstate r')"
  by (induction ds arbitrary: r)
    (fastforce simp: dns_table.has_add split: prod.splits sum.splits if_splits)+

lemma add_nat_rules_keeps: "add_nat_rules send c cid rules r = Inr r' \<Longrightarrow> HasNAT q (gstate r) \<Longrightarrow> HasNAT q (gstate r')"
  by (induction rules arbitrary: r)
    (fastforce simp: Let_def nat_table.has_add split: prod.splits sum.splits if_splits)+

lemma add_dns_rules_has:
  assumes "answers send"
  shows "add_dns_rules send c caddyIP cid ds r = Inr r' \<Longrightarrow> \<exists>d \<in> set ds. valid_domain d \<Longrightarrow> HasDNS cid (gstate r')"
proof (induction ds arbitrary: r)
  case (Cons d ds)
  obtain h p ok where d: "splitDomain d = (h, p, ok)" by (metis surj_pair)
  show ?case
  proof (cases ok)
    case False
    then show ?thesis using Cons d by (auto simp: valid_domain_def)
  next
    case True
    obtain x w where x: "AddHostOverride send c h p caddyIP (MakeDescription cid []) (world r) = (x, w)" by (metis surj_pair)
    then obtain u where "x = Inr u" using answers_add(1) [OF assms] by blast
    with x have "add_dns_rules send c caddyIP cid ds
        (r\<lparr>world := w, gstate := AddDNS cid u (gstate r), dnsChanged := True\<rparr>) = Inr r'"
      using Cons.prems(1) d True by simp
    from add_dns_rules_keeps [OF this, of cid] show ?thesis by (simp add: dns_table.has_add)
  qed
qed simp

lemma add_nat_rules_has:
  assumes "answers send" "add_nat_rules send c cid (rule # rules) r = Inr r'"
  shows "HasNAT cid (gstate r')"
proof -
  obtain x w where x: "AddNATRule send c rule (world (ensure_savepoint send c r)) = (x, w)" by (metis surj_pair)
  then obtain u where "x = Inr u" using answers_add(2) [OF assms(1)] by blast
  with x have "add_nat_rules send c cid rules
      ((ensure_savepoint send c r)\<lparr>world := w, gstate := AddNAT cid u (gstate r)\<rparr>) = Inr r'"
    using assms(2) by (simp add: Let_def)
  from add_nat_rules_keeps [OF this, of cid] show ?thesis by (simp add: nat_table.has_add)
qed

lemma add_container_settled:
  assumes "answers send"
  shows "add_container_dns send c caddyIP labelPrefix cid info r = Inr r1 \<Longrightarrow>
      dns_settled caddyIP labelPrefix cid info (gstate r1)"
    and "add_container_nat send c cid info r1 = Inr r2 \<Longrightarrow> nat_settled cid info (gstate r2)"
proof -
  show "add_container_dns send c caddyIP labelPrefix cid info r = Inr r1 \<Longrightarrow>
      dns_settled caddyIP labelPrefix cid info (gstate r1)"
    using add_dns_rules_has [OF assms, of c caddyIP cid "extractDNSTargets (ci_labels info) labelPrefix" r r1]
    by (auto simp: add_container_dns_def dns_settled_def Let_def split: if_splits)
  show "nat_settled cid info (gstate r2)" if "add_container_nat send c cid info r1 = Inr r2"
  proof (cases "buildNATRules (ci_labels info) (ci_hostIP info) cid")
    case (Cons rule rules)
    then show ?thesis using that add_nat_rules_has [OF assms, of c cid rule rules r1 r2]
      by (auto simp: add_container_nat_def nat_settled_def Let_def split: if_splits)
  qed (simp add: nat_settled_def)
qed

lemma settled_mono:
  "dns_settled ip pfx cid info s \<Longrightarrow> (HasDNS cid s \<Longrightarrow> HasDNS cid s') \<Longrightarrow> dns_settled ip pfx cid info s'"
  "nat_settled cid info s \<Longrightarrow> (HasNAT cid s \<Longrightarrow> HasNAT cid s') \<Longrightarrow> nat_settled cid info s'"
  by (auto simp: dns_settled_def nat_settled_def)

lemma add_running_has:
  assumes "add_running send c caddyIP labelPrefix current cids r = Inr r'"
  shows "HasDNS q (gstate r) \<Longrightarrow> HasDNS q (gstate r')" and "HasNAT q (gstate r) \<Longrightarrow> HasNAT q (gstate r')"
  using add_running_gstate [OF assms, of q] by (auto simp: HasDNS_def HasNAT_def uuids_def)

lemma add_running_settles:
  assumes "answers send"
  shows "add_running send c caddyIP labelPrefix current cids r = Inr r' \<Longrightarrow>
    \<forall>cid \<in> set cids. \<forall>info. current cid = Some info \<longrightarrow>
      dns_settled caddyIP labelPrefix cid info (gstate r') \<and> nat_settled cid info (gstate r')"
proof (induction cids arbitrary: r)
  case (Cons cid cids)
  show ?case
  proof (cases "current cid")
    case None
    then show ?thesis using Cons by auto
  next
    case (Some info)
    then obtain r1 r2 where r1: "add_container_dns send c caddyIP labelPrefix cid info r = Inr r1"
      and r2: "add_container_nat send c cid info r1 = Inr r2"
      and r': "add_running send c caddyIP labelPrefix current cids r2 = Inr r'"
      using Cons.prems by auto
    have "dnsUUIDs (gstate r2) = dnsUUIDs (gstate r1)" using add_container_gstate(2) [OF r2] by blast
    then have "HasDNS cid (gstate r1) \<Longrightarrow> HasDNS cid (gstate r2)" by (simp add: HasDNS_def)
    then have "dns_settled caddyIP labelPrefix cid info (gstate r')" "nat_settled cid info (gstate r')"
      using add_container_settled(1) [OF assms r1] add_container_settled(2) [OF assms r2] add_running_has [OF r']
      by (blast intro: settled_mono)+
    then show ?thesis using Cons.IH [OF r'] Some by auto
  qed
qed simp

lemma reconcile_converges:
  assumes "answers send" "Enabled c"
    and first: "reconcileGateway send c caddyIP labelPrefix hosts known running s w = Inr r'"
    and orders: "iteration_orders caddyIP hosts s known running"
      "iteration_orders caddyIP hosts (gstate r') known' running'"
    and ids: "\<forall>cid \<in> set running. 12 \<le> length cid"
  shows "reconcileGateway send' c caddyIP labelPrefix hosts known' running' (gstate r') w' =
    Inr \<lparr>world = w', gstate = gstate r', dnsChanged = False, natRevision = []\<rparr>"
proof (rule reconcile_settled [OF orders(2)])
  let ?cur = "collect_current caddyIP hosts Map.empty"
  have same: "set running' = set running" using orders by (simp add: iteration_orders_def)
  show "\<forall>cid \<in> set running'. 12 \<le> length cid" using ids same by simp
  show "set known' \<subseteq> set running'"
    using reconcile_tracks_running [OF first assms(2) orders(1)] orders(2)
    by (simp add: iteration_orders_def KnownContainerIDs_def)
  from reconcile_parts [OF first assms(2)] obtain r1 r2 where
    r2: "add_running send c caddyIP labelPrefix ?cur running r1 = Inr r2" "r' = apply_changes send c r2" by metis
  show "\<forall>cid \<in> set running'. \<forall>info. ?cur cid = Some info \<longrightarrow>
      dns_settled caddyIP labelPrefix cid info (gstate r') \<and> nat_settled cid info (gstate r')"
    using add_running_settles [OF assms(1) r2(1)] same by (simp add: r2(2))
qed

end
