(* ===== verification/CMaps.thy ===== *)
theory CMaps
  imports Main
begin

text \<open>
  The two concurrent maps (\<open>utils/stringBoolCMap.go\<close> and \<open>utils/stringInt64CMap.go\<close>). Every method
  holds the lock for its whole body, so it is one step. Their contract is that of a total map
  with a default, which is what the loader relies on.
\<close>

section \<open>StringBoolCMap\<close>

record StringBoolCMap =
  bool_internal :: "string \<rightharpoonup> bool"

definition NewStringBoolCMap :: StringBoolCMap where
  "NewStringBoolCMap = \<lparr>bool_internal = Map.empty\<rparr>"

definition bool_Set :: "string \<Rightarrow> bool \<Rightarrow> StringBoolCMap \<Rightarrow> StringBoolCMap" where
  "bool_Set key value m = m\<lparr>bool_internal := (bool_internal m)(key \<mapsto> value)\<rparr>"

definition bool_Get :: "StringBoolCMap \<Rightarrow> string \<Rightarrow> bool" where
  "bool_Get m key = (case bool_internal m key of None \<Rightarrow> False | Some v \<Rightarrow> v)"

definition bool_Delete :: "string \<Rightarrow> StringBoolCMap \<Rightarrow> StringBoolCMap" where
  "bool_Delete key m = m\<lparr>bool_internal := (bool_internal m)(key := None)\<rparr>"

section \<open>StringInt64CMap\<close>

record StringInt64CMap =
  int64_internal :: "string \<rightharpoonup> int"

definition NewStringInt64CMap :: StringInt64CMap where
  "NewStringInt64CMap = \<lparr>int64_internal = Map.empty\<rparr>"

definition int64_Set :: "string \<Rightarrow> int \<Rightarrow> StringInt64CMap \<Rightarrow> StringInt64CMap" where
  "int64_Set key value m = m\<lparr>int64_internal := (int64_internal m)(key \<mapsto> value)\<rparr>"

definition int64_Get :: "StringInt64CMap \<Rightarrow> string \<Rightarrow> int" where
  "int64_Get m key = (case int64_internal m key of None \<Rightarrow> 0 | Some v \<Rightarrow> v)"

definition int64_Delete :: "string \<Rightarrow> StringInt64CMap \<Rightarrow> StringInt64CMap" where
  "int64_Delete key m = m\<lparr>int64_internal := (int64_internal m)(key := None)\<rparr>"

section \<open>The contract\<close>

text \<open>A history of calls, and the value it leaves under a key: that of the last call for the key.\<close>

datatype 'v call = Set_call string 'v | Delete_call string

fun last_value :: "'v \<Rightarrow> 'v call list \<Rightarrow> string \<Rightarrow> 'v" where
  "last_value zero_value [] key = zero_value"
| "last_value zero_value (Set_call k v # earlier) key = (if k = key then v else last_value zero_value earlier key)"
| "last_value zero_value (Delete_call k # earlier) key = (if k = key then zero_value else last_value zero_value earlier key)"

locale default_map =
  fixes new :: 'm
    and set_op :: "string \<Rightarrow> 'v \<Rightarrow> 'm \<Rightarrow> 'm"
    and get_op :: "'m \<Rightarrow> string \<Rightarrow> 'v"
    and delete_op :: "string \<Rightarrow> 'm \<Rightarrow> 'm"
    and zero_value :: 'v
  assumes get_new: "get_op new k = zero_value"
    and get_set: "get_op (set_op k v m) k' = (if k = k' then v else get_op m k')"
    and get_delete: "get_op (delete_op k m) k' = (if k = k' then zero_value else get_op m k')"
begin

fun apply_call :: "'v call \<Rightarrow> 'm \<Rightarrow> 'm" where
  "apply_call (Set_call k v) m = set_op k v m"
| "apply_call (Delete_call k) m = delete_op k m"

lemma get_history: "get_op (fold apply_call calls new) k = last_value zero_value (rev calls) k"
proof (induction calls rule: rev_induct)
  case Nil
  then show ?case by (simp add: get_new)
next
  case (snoc c calls)
  then show ?case by (cases c) (simp_all add: get_set get_delete)
qed

text \<open>Flagging and unflagging leaves no trace.\<close>

lemma get_bracket: "get_op m k = zero_value \<Longrightarrow> get_op (delete_op k (set_op k v m)) k' = get_op m k'"
  by (cases "k = k'") (simp_all add: get_set get_delete)

end

interpretation bool_map: default_map NewStringBoolCMap bool_Set bool_Get bool_Delete False
  by unfold_locales (simp_all add: NewStringBoolCMap_def bool_Set_def bool_Get_def bool_Delete_def)

interpretation int64_map: default_map NewStringInt64CMap int64_Set int64_Get int64_Delete 0
  by unfold_locales (simp_all add: NewStringInt64CMap_def int64_Set_def int64_Get_def int64_Delete_def)

end
