(* ===== verification/Command.thy ===== *)
theory Command
  imports Docker
begin

text \<open>
  The command line (\<open>cmd.go\<close>): the flags and their defaults, the options made from flags and
  environment, and what the command starts. The environment, parsing a duration (whose fractions
  \<open>time.ParseDuration\<close> computes in floating point), the network interfaces, and running or stopping
  Caddy are parameters.
\<close>

section \<open>Flags\<close>

text \<open>Durations are in nanoseconds.\<close>

record Flags =
  flag_mode :: string
  flag_docker_sockets :: string
  flag_docker_certs_path :: string
  flag_docker_apis_version :: string
  flag_controller_network :: string
  flag_ingress_networks :: string
  flag_caddyfile_path :: string
  flag_envfile :: string
  flag_label_prefix :: string
  flag_proxy_service_tasks :: bool
  flag_process_caddyfile :: bool
  flag_scan_stopped_containers :: bool
  flag_polling_interval :: int
  flag_event_throttle_interval :: int

definition DefaultLabelPrefix :: string where
  "DefaultLabelPrefix = ''caddy''"

definition default_flags :: Flags where
  "default_flags =
     \<lparr>flag_mode = ''standalone'', flag_docker_sockets = [], flag_docker_certs_path = [], flag_docker_apis_version = [],
      flag_controller_network = [], flag_ingress_networks = [], flag_caddyfile_path = [], flag_envfile = [],
      flag_label_prefix = DefaultLabelPrefix, flag_proxy_service_tasks = True, flag_process_caddyfile = True,
      flag_scan_stopped_containers = False, flag_polling_interval = 30 * 1000000000,
      flag_event_throttle_interval = 100 * 1000000\<rparr>"

section \<open>Reading values\<close>

text \<open>\<open>strings.TrimSpace\<close>.\<close>

definition TrimSpace :: "string \<Rightarrow> string" where
  "TrimSpace s =
     concat (map snd (rev (dropWhile (\<lambda>c. IsSpace (fst c)) (rev (dropWhile (\<lambda>c. IsSpace (fst c)) (rune_chunks s))))))"

definition normalizeAdminListen :: "string \<Rightarrow> string" where
  "normalizeAdminListen listen =
     (let listen = TrimSpace listen in
      if listen = [] then [] else if CHR ''/'' \<in> set listen then listen else ''tcp/'' @ listen)"

text \<open>
  The regular expression \<open>(?i)^(true|yes|1)$\<close>. Case folding as package \<open>regexp\<close> does it: besides the
  ASCII letters, U+017F folds to \<open>s\<close> and U+212A to \<open>k\<close>.
\<close>

definition fold_rune :: "rune \<Rightarrow> rune" where
  "fold_rune r = (if 65 \<le> r \<and> r \<le> 90 then r + 32 else if r = 383 then 115 else if r = 8490 then 107 else r)"

definition isTrue :: "string \<Rightarrow> bool" where
  "isTrue s \<longleftrightarrow> map fold_rune (decode_runes s) \<in> {map of_char ''true'', map of_char ''yes'', map of_char ''1''}"

section \<open>Options\<close>

definition env_or :: "string \<Rightarrow> string \<Rightarrow> string" where
  "env_or env flag = (if env \<noteq> [] then env else flag)"

definition mode_of :: "string \<Rightarrow> int" where
  "mode_of mode = (if mode = ''controller'' then Controller else if mode = ''server'' then Server else Standalone)"

definition list_option :: "string \<Rightarrow> string \<Rightarrow> string list" where
  "list_option env flag =
     (if env \<noteq> [] then Split env CHR '','' else if flag \<noteq> [] then Split flag CHR '','' else [])"

definition controller_network :: "string \<Rightarrow> string \<Rightarrow> IPNet option" where
  "controller_network env flag =
     (if env \<noteq> [] then map_option snd (ParseCIDR env)
      else if flag \<noteq> [] then map_option snd (ParseCIDR flag)
      else None)"

definition bool_option :: "string \<Rightarrow> bool \<Rightarrow> bool" where
  "bool_option env flag = (if env \<noteq> [] then isTrue env else flag)"

definition duration_option :: "(string \<Rightarrow> int result) \<Rightarrow> string \<Rightarrow> int \<Rightarrow> int" where
  "duration_option ParseDuration env flag =
     (if env \<noteq> [] then (case ParseDuration env of Inl err \<Rightarrow> flag | Inr p \<Rightarrow> p) else flag)"

definition createOptions :: "(string \<Rightarrow> int result) \<Rightarrow> (string \<Rightarrow> string) \<Rightarrow> Flags \<Rightarrow> Options" where
  "createOptions ParseDuration getenv flags =
     (let labelPrefix = env_or (getenv ''CADDY_DOCKER_LABEL_PREFIX'') (flag_label_prefix flags) in
      \<lparr>CaddyfilePath = env_or (getenv ''CADDY_DOCKER_CADDYFILE_PATH'') (flag_caddyfile_path flags),
       EnvFile = env_or (getenv ''CADDY_DOCKER_ENVFILE'') (flag_envfile flags),
       AdminListen = (if getenv ''CADDY_ADMIN'' \<noteq> [] then normalizeAdminListen (getenv ''CADDY_ADMIN'') else []),
       DockerSockets = list_option (getenv ''CADDY_DOCKER_SOCKETS'') (flag_docker_sockets flags),
       DockerCertsPath = Split (env_or (getenv ''CADDY_DOCKER_CERTS_PATH'') (flag_docker_certs_path flags)) CHR '','',
       DockerAPIsVersion = Split (env_or (getenv ''CADDY_DOCKER_APIS_VERSION'') (flag_docker_apis_version flags)) CHR '','',
       LabelPrefix = labelPrefix,
       ControlledServersLabel = labelPrefix @ ''_controlled_server'',
       ProxyServiceTasks = bool_option (getenv ''CADDY_DOCKER_PROXY_SERVICE_TASKS'') (flag_proxy_service_tasks flags),
       ProcessCaddyfile = bool_option (getenv ''CADDY_DOCKER_PROCESS_CADDYFILE'') (flag_process_caddyfile flags),
       ScanStoppedContainers =
         bool_option (getenv ''CADDY_DOCKER_SCAN_STOPPED_CONTAINERS'') (flag_scan_stopped_containers flags),
       PollingInterval =
         duration_option ParseDuration (getenv ''CADDY_DOCKER_POLLING_INTERVAL'') (flag_polling_interval flags),
       EventThrottleInterval =
         duration_option ParseDuration (getenv ''CADDY_DOCKER_EVENT_THROTTLE_INTERVAL'') (flag_event_throttle_interval flags),
       Mode = mode_of (env_or (getenv ''CADDY_DOCKER_MODE'') (flag_mode flags)),
       Secret = [],
       ControllerNetwork = controller_network (getenv ''CADDY_CONTROLLER_NETWORK'') (flag_controller_network flags),
       IngressNetworks = list_option (getenv ''CADDY_INGRESS_NETWORKS'') (flag_ingress_networks flags)\<rparr>)"

section \<open>The addresses of the admin interface\<close>

datatype interface_address = IPAddr IP | IPNet_address IP | Other_address

fun address_in :: "IPNet \<Rightarrow> interface_address \<Rightarrow> IP option" where
  "address_in network (IPAddr ip) = (if Contains network ip then Some ip else None)"
| "address_in network (IPNet_address ip) = (if Contains network ip then Some ip else None)"
| "address_in network Other_address = None"

text \<open>The first address of an interface in the network; interfaces whose addresses cannot be read are
  skipped.\<close>

definition getAdminListen :: "interface_address list result list result \<Rightarrow> Options \<Rightarrow> string" where
  "getAdminListen interfaces opts =
     (if AdminListen opts \<noteq> [] then AdminListen opts
      else case ControllerNetwork opts of
        None \<Rightarrow> ''tcp/localhost:2019''
      | Some network \<Rightarrow>
          let addresses =
                concat (map (case_sum (\<lambda>err. []) id) (case interfaces of Inl err \<Rightarrow> [] | Inr ifaces \<Rightarrow> ifaces)) in
          case List.map_filter (address_in network) addresses of
            [] \<Rightarrow> ''tcp/localhost:2019''
          | ip # _ \<Rightarrow> ''tcp/'' @ IP_String ip @ '':2019'')"

section \<open>The command\<close>

text \<open>
  The result is the exit code with the error, or \<open>None\<close> when the command runs forever. \<open>run\<close> is
  \<open>caddy.Run\<close> for an admin address, \<open>start\<close> the start of the loader, \<open>stop\<close> is \<open>caddy.Stop\<close>; each gives its error.
\<close>

definition cmdFunc ::
  "(string \<Rightarrow> string option) \<Rightarrow> (Options \<Rightarrow> string option) \<Rightarrow> string option \<Rightarrow>
   interface_address list result list result \<Rightarrow> Options \<Rightarrow> (nat \<times> string) option" where
  "cmdFunc run start stop interfaces opts =
     (case (if and (Mode opts) Server = Server then run (getAdminListen interfaces opts) else None) of
        Some err \<Rightarrow> Some (1, err)
      | None \<Rightarrow>
          if and (Mode opts) Controller = Controller then
            (case start opts of
               Some err \<Rightarrow> (case stop of Some err' \<Rightarrow> Some (1, err') | None \<Rightarrow> Some (1, err))
             | None \<Rightarrow> None)
          else None)"

section \<open>Laws\<close>

lemma mode_bits:
  "and (mode_of m) Server = Server \<longleftrightarrow> m \<noteq> ''controller''"
  "and (mode_of m) Controller = Controller \<longleftrightarrow> m \<noteq> ''server''"
  by (simp_all add: mode_of_def Controller_def Server_def Standalone_def)

lemma createOptions_shape:
  "Mode (createOptions P getenv flags) \<in> {1, 2, 3}"
  "ControlledServersLabel (createOptions P getenv flags) = LabelPrefix (createOptions P getenv flags) @ ''_controlled_server''"
  "AdminListen (createOptions P getenv flags) = [] \<or> CHR ''/'' \<in> set (AdminListen (createOptions P getenv flags))"
  by (simp_all add: createOptions_def Let_def mode_of_def Controller_def Server_def Standalone_def normalizeAdminListen_def)

lemma getAdminListen_network:
  assumes "AdminListen opts = [] \<or> CHR ''/'' \<in> set (AdminListen opts)"
  shows "CHR ''/'' \<in> set (getAdminListen interfaces opts)"
  using assms by (auto simp: getAdminListen_def Let_def split: option.split list.split)

lemma cmdFunc_None:
  "cmdFunc run start stop interfaces opts = None \<longleftrightarrow>
     \<not> (and (Mode opts) Server = Server \<and> run (getAdminListen interfaces opts) \<noteq> None) \<and>
     \<not> (and (Mode opts) Controller = Controller \<and> start opts \<noteq> None)"
  by (auto simp: cmdFunc_def split: option.splits)

lemma cmdFunc_code: "map_option fst (cmdFunc run start stop interfaces opts) \<in> {None, Some 1}"
  by (auto simp: cmdFunc_def split: option.split)

end
