(* ===== verification/Loader.thy ===== *)
theory Loader
  imports Generate Reconcile CMaps Command
begin

text \<open>
  The loader (\<open>loader.go\<close> and \<open>discoverRemoteHosts\<close> of \<open>loader_gateway.go\<close>): starting, listening to
  Docker events, generating a Caddyfile and sending its configuration to the servers. The Docker
  clients, that is, what the hosts answer at the time of a call, are arguments; so are the clock,
  the adapter, JSON, HTTP and the environment. A panic is the outcome \<open>None\<close>. The servers of one update
  are visited one after the other here; theory \<open>Workers\<close> treats their goroutines step by step.
\<close>

section \<open>State\<close>

record DockerLoader =
  dl_options :: Options
  initialized :: bool
  generator :: CaddyfileGenerator
  timer :: int
  skipEvents :: "bool list"
  lastCaddyfile :: string
  lastJSONConfig :: string
  lastVersion :: int
  serversVersions :: StringInt64CMap
  serversUpdating :: StringBoolCMap
  gatewayClient :: Client
  gatewayState :: State

text \<open>The fields that are nil before \<open>Start\<close> have values no operation reads.\<close>

definition CreateDockerLoader :: "Options \<Rightarrow> DockerLoader" where
  "CreateDockerLoader opts =
     \<lparr>dl_options = opts, initialized = False, generator = CreateGenerator [] opts, timer = 0, skipEvents = [],
      lastCaddyfile = [], lastJSONConfig = [], lastVersion = 0,
      serversVersions = NewStringInt64CMap, serversUpdating = NewStringBoolCMap,
      gatewayClient = NewClientWithURL [] [] [], gatewayState = NewState\<rparr>"

section \<open>Sending a configuration\<close>

definition getServerAdminListen :: "Options \<Rightarrow> string \<Rightarrow> string" where
  "getServerAdminListen opts server =
     (if AdminListen opts \<noteq> [] then AdminListen opts else ''tcp/'' @ server @ '':2019'')"

text \<open>A Caddy configuration as far as it matters here; the rest is \<open>'x\<close>.\<close>

record AdminConfig =
  Disabled :: bool
  Listen :: string

record 'x caddy_config =
  Admin :: "AdminConfig option"
  rest_of_config :: 'x

record 'x json =
  json_Unmarshal :: "string \<Rightarrow> 'x caddy_config result"
  json_Marshal :: "'x caddy_config \<Rightarrow> string result"

definition addAdminListen :: "'x json \<Rightarrow> string \<Rightarrow> string \<Rightarrow> string result" where
  "addAdminListen js configJSON listen =
     (case json_Unmarshal js configJSON of
        Inl err \<Rightarrow> Inl err
      | Inr config \<Rightarrow>
          if (case Admin config of None \<Rightarrow> False | Some a \<Rightarrow> \<not> Disabled a) then Inr configJSON
          else json_Marshal js (config\<lparr>Admin := Some \<lparr>Disabled = False, Listen = listen\<rparr>\<rparr>))"

text \<open>\<open>post\<close> sends a request: the URL and the body give an error, or the status code of the response.\<close>

type_synonym 'w poster = "string \<Rightarrow> string \<Rightarrow> 'w \<Rightarrow> int result \<times> 'w"

definition send_config :: "'x json \<Rightarrow> 'w poster \<Rightarrow> Options \<Rightarrow> string \<Rightarrow> string \<Rightarrow> 'w \<Rightarrow> bool \<times> 'w" where
  "send_config js post opts configJSON server w =
     (case addAdminListen js configJSON (getServerAdminListen opts server) of
        Inl err \<Rightarrow> (False, w)
      | Inr postBody \<Rightarrow>
          (case post (''http://'' @ server @ '':2019/load'') postBody w of
             (Inl err, w) \<Rightarrow> (False, w)
           | (Inr statusCode, w) \<Rightarrow> (statusCode = 200, w)))"

definition updateServer :: "'x json \<Rightarrow> 'w poster \<Rightarrow> string \<Rightarrow> DockerLoader \<times> 'w \<Rightarrow> DockerLoader \<times> 'w" where
  "updateServer js post server dw =
     (case dw of (dl, w) \<Rightarrow>
      if bool_Get (serversUpdating dl) server then (dl, w)
      else
        let dl = dl\<lparr>serversUpdating := bool_Set server True (serversUpdating dl)\<rparr>;
            version = lastVersion dl;
            (dl, w) =
              (if int64_Get (serversVersions dl) server \<ge> version then (dl, w)
               else
                 case send_config js post (dl_options dl) (lastJSONConfig dl) server w of
                   (False, w) \<Rightarrow> (dl, w)
                 | (True, w) \<Rightarrow> (dl\<lparr>serversVersions := int64_Set server version (serversVersions dl)\<rparr>, w))
        in (dl\<lparr>serversUpdating := bool_Delete server (serversUpdating dl)\<rparr>, w))"

section \<open>The autosaved Caddyfile\<close>

text \<open>Files are behind the state \<open>'w\<close>; an operation gives its error, if any.\<close>

record 'w file_system =
  autosavePath :: string
  WriteFile :: "string \<Rightarrow> string \<Rightarrow> 'w \<Rightarrow> string option \<times> 'w"
  Rename :: "string \<Rightarrow> string \<Rightarrow> 'w \<Rightarrow> string option \<times> 'w"

definition autosave :: "'w file_system \<Rightarrow> string \<Rightarrow> 'w \<Rightarrow> 'w" where
  "autosave fs caddyfile w =
     (let tmpPath = autosavePath fs @ ''.tmp'' in
      case WriteFile fs tmpPath caddyfile w of
        (Some err, w) \<Rightarrow> w
      | (None, w) \<Rightarrow> snd (Rename fs tmpPath (autosavePath fs) w))"

section \<open>update\<close>

text \<open>What the loader reads from its surroundings during an update.\<close>

record ('x, 'w) environment =
  env_clients :: "docker_client list"
  env_adapter :: "string \<Rightarrow> string result"
  env_expand :: expander
  env_readFile :: "string \<Rightarrow> string result"
  env_currentContainerID :: "string result"
  env_now :: int
  env_json :: "'x json"
  env_post :: "'w poster"
  env_files :: "'w file_system"
  env_send :: "'w sender"
  env_getenv :: "string \<Rightarrow> string"
  env_known :: "string list"
  env_running :: "string list"

text \<open>The adapter's error is what \<open>Process\<close> looks at.\<close>

definition adapter_error :: "(string \<Rightarrow> string result) \<Rightarrow> string \<Rightarrow> string option" where
  "adapter_error adapter text = (case adapter text of Inl err \<Rightarrow> Some err | Inr _ \<Rightarrow> None)"

definition host_of_client :: "docker_client \<Rightarrow> docker_host" where
  "host_of_client c =
     \<lparr>dh_HostIP = HostIP c,
      dh_containers = map_sum id (map (\<lambda>x. (dc_ID x, dc_Labels x))) (ContainerList c False)\<rparr>"

definition loader_reconcile :: "('x, 'w) environment \<Rightarrow> DockerLoader \<times> 'w \<Rightarrow> (DockerLoader \<times> 'w) option" where
  "loader_reconcile env dw =
     (case dw of (dl, w) \<Rightarrow>
      case reconcileGateway (env_send env) (gatewayClient dl) (env_getenv env ''CADDY_IP'') (LabelPrefix (dl_options dl))
             (map host_of_client (env_clients env)) (env_known env) (env_running env) (gatewayState dl) w of
        Inl r \<Rightarrow> None
      | Inr r \<Rightarrow> Some (dl\<lparr>gatewayState := gstate r\<rparr>, world r))"

text \<open>The generator was given the clients of the local sockets, the first of the loader's clients.\<close>

definition local_clients :: "DockerLoader \<Rightarrow> ('x, 'w) environment \<Rightarrow> docker_client list" where
  "local_clients dl env = take (length (swarmIsAvailable (generator dl))) (env_clients env)"

definition publish :: "(string \<Rightarrow> string result) \<Rightarrow> string \<Rightarrow> DockerLoader \<Rightarrow> DockerLoader \<times> bool" where
  "publish adapter caddyfile dl =
     (let caddyfileChanged = (lastCaddyfile dl \<noteq> caddyfile);
          dl = dl\<lparr>lastCaddyfile := caddyfile\<rparr> in
      if caddyfileChanged then
        (case adapter caddyfile of
           Inl err \<Rightarrow> (dl, False)
         | Inr configJSON \<Rightarrow> (dl\<lparr>lastJSONConfig := configJSON, lastVersion := lastVersion dl + 1\<rparr>, True))
      else (dl, True))"

definition update ::
  "('x, 'w) environment \<Rightarrow> DockerLoader \<times> 'w \<Rightarrow> ((DockerLoader \<times> 'w) \<times> bool) option" where
  "update env dw =
     (case dw of (dl, w) \<Rightarrow>
      let dl = dl\<lparr>timer := PollingInterval (dl_options dl), skipEvents := map (\<lambda>_. False) (skipEvents dl)\<rparr> in
      case GenerateCaddyfile (adapter_error (env_adapter env)) (env_expand env) (env_readFile env)
             (env_currentContainerID env) (env_now env) (local_clients dl env) (generator dl) of
        None \<Rightarrow> None
      | Some ((caddyfile, servers), g) \<Rightarrow>
          let w = (if lastCaddyfile dl \<noteq> caddyfile then autosave (env_files env) caddyfile w else w) in
          (case publish (env_adapter env) caddyfile (dl\<lparr>generator := g\<rparr>) of
             (dl, False) \<Rightarrow> Some ((dl, w), False)
           | (dl, True) \<Rightarrow>
               map_option (\<lambda>dw. (dw, True))
                 (loader_reconcile env (fold (updateServer (env_json env) (env_post env)) servers (dl, w)))))"

section \<open>Events\<close>

record docker_event =
  event_Type :: string
  event_Action :: string

text \<open>The filters of the subscription.\<close>

definition event_filters :: "(string \<Rightarrow> string) \<Rightarrow> (string \<times> string) list" where
  "event_filters getenv =
     (if \<not> isTrue (getenv ''CADDY_DOCKER_NO_SCOPE'') then [(''scope'', ''swarm''), (''scope'', ''local'')] else []) @
     [(''type'', ''service''), (''type'', ''container''), (''type'', ''config''), (''type'', ''network'')]"

text \<open>What one pass of \<open>select\<close> receives from a client: an event, or an error (perhaps nil).\<close>

datatype received = Event docker_event | Error "string option"

definition relevant_event :: "docker_event \<Rightarrow> bool" where
  "relevant_event e \<longleftrightarrow>
     (event_Type e = ''container'' \<and> event_Action e = ''create'') \<or>
     (event_Type e = ''container'' \<and> event_Action e = ''start'') \<or>
     (event_Type e = ''container'' \<and> event_Action e = ''stop'') \<or>
     (event_Type e = ''container'' \<and> event_Action e = ''die'') \<or>
     (event_Type e = ''container'' \<and> event_Action e = ''destroy'') \<or>
     (event_Type e = ''service'' \<and> event_Action e = ''create'') \<or>
     (event_Type e = ''service'' \<and> event_Action e = ''update'') \<or>
     (event_Type e = ''service'' \<and> event_Action e = ''remove'') \<or>
     (event_Type e = ''config'' \<and> event_Action e = ''create'') \<or>
     (event_Type e = ''config'' \<and> event_Action e = ''remove'') \<or>
     (event_Type e = ''network'' \<and> event_Action e = ''connect'') \<or>
     (event_Type e = ''network'' \<and> event_Action e = ''disconnect'')"

definition on_event :: "nat \<Rightarrow> docker_event \<Rightarrow> DockerLoader \<Rightarrow> DockerLoader" where
  "on_event i e dl =
     (if skipEvents dl ! i then dl
      else if relevant_event e
      then dl\<lparr>skipEvents := (skipEvents dl)[i := True], timer := EventThrottleInterval (dl_options dl)\<rparr>
      else dl)"

text \<open>
  The inner loop for one client, over what its channels have delivered so far: it ends with the first
  error; when everything is consumed it blocks, with the result \<open>False\<close>. The outer loop goes to the
  next client only when the inner one has ended.
\<close>

fun listen_client :: "nat \<Rightarrow> received list \<Rightarrow> DockerLoader \<Rightarrow> DockerLoader \<times> bool" where
  "listen_client i [] dl = (dl, False)"
| "listen_client i (Event e # rs) dl = listen_client i rs (on_event i e dl)"
| "listen_client i (Error err # rs) dl = (dl, True)"

fun listenEvents :: "nat \<Rightarrow> received list list \<Rightarrow> DockerLoader \<Rightarrow> DockerLoader \<times> bool" where
  "listenEvents i [] dl = (dl, True)"
| "listenEvents i (rs # streams) dl =
     (case listen_client i rs dl of
        (dl, False) \<Rightarrow> (dl, False)
      | (dl, True) \<Rightarrow> listenEvents (i + 1) streams dl)"

text \<open>\<open>monitorEvents\<close> listens again and again, over what each round delivers; it ends only by blocking.\<close>

fun monitorEvents :: "received list list list \<Rightarrow> DockerLoader \<Rightarrow> DockerLoader" where
  "monitorEvents [] dl = dl"
| "monitorEvents (streams # rounds) dl =
     (case listenEvents 0 streams dl of
        (dl, False) \<Rightarrow> dl
      | (dl, True) \<Rightarrow> monitorEvents rounds dl)"

section \<open>Start\<close>

text \<open>
  Connecting (\<open>NewEnvClient\<close>, a ping and the negotiation of the version) is the parameter \<open>connect\<close>. It
  gets the socket with the certificates and the API version that are set for it (otherwise these
  variables are unset), or no socket: then the environment is used as it is.
\<close>

definition nth_setting :: "string list \<Rightarrow> nat \<Rightarrow> string option" where
  "nth_setting settings i = (if length settings \<ge> i + 1 \<and> settings ! i \<noteq> [] then Some (settings ! i) else None)"

type_synonym connector = "string option \<Rightarrow> string option \<Rightarrow> string option \<Rightarrow> sdk_client result"

fun connect_sockets :: "connector \<Rightarrow> Options \<Rightarrow> nat \<Rightarrow> string list \<Rightarrow> docker_client list result" where
  "connect_sockets connect opts i [] = Inr []"
| "connect_sockets connect opts i (dockerSocket # sockets) =
     (case connect (Some dockerSocket) (nth_setting (DockerCertsPath opts) i) (nth_setting (DockerAPIsVersion opts) i) of
        Inl err \<Rightarrow> Inl err
      | Inr sdk \<Rightarrow> map_sum id (\<lambda>cs. WrapClient sdk # cs) (connect_sockets connect opts (i + 1) sockets))"

fun add_remotes ::
  "(string \<Rightarrow> string \<Rightarrow> remote_error + docker_client) \<Rightarrow> remoteHostEntry list \<Rightarrow>
   docker_client list \<times> string list \<Rightarrow> docker_client list \<times> string list" where
  "add_remotes newRemote [] s = s"
| "add_remotes newRemote (entry # remotes) (clients, sockets) =
     (case newRemote (re_URL entry) (re_Token entry) of
        Inl err \<Rightarrow> add_remotes newRemote remotes (clients, sockets)
      | Inr c \<Rightarrow> add_remotes newRemote remotes (clients @ [c], sockets @ [re_URL entry]))"

definition discoverRemoteHosts ::
  "string result \<Rightarrow> (string \<Rightarrow> string \<Rightarrow> remote_error + docker_client) \<Rightarrow>
   docker_client list \<times> string list \<Rightarrow> docker_client list \<times> string list" where
  "discoverRemoteHosts hostname newRemote s =
     (case hostname of
        Inl err \<Rightarrow> s
      | Inr name \<Rightarrow>
          if length (fst s) = 0 then s
          else case ContainerInspect (fst s ! 0) name of
            Inl err \<Rightarrow> s
          | Inr self \<Rightarrow>
              (case cj_Labels self of
                 None \<Rightarrow> s
               | Some labels \<Rightarrow> add_remotes newRemote (parseRemoteHosts labels) s))"

record 'w start_environment =
  start_loadEnvFile :: "string \<Rightarrow> string option"
  start_connect :: connector
  start_getenv :: "string \<Rightarrow> string"
  start_hostname :: "string result"
  start_newRemote :: "string \<Rightarrow> string \<Rightarrow> remote_error + docker_client"
  start_send :: "'w sender"

text \<open>
  The result of \<open>Start\<close> is an error, or the clients of the loader, which are missing if it was started
  before; the state is as it is then. The environment is that after the environment file was loaded.
\<close>

definition Start ::
  "'w start_environment \<Rightarrow> DockerLoader \<times> 'w \<Rightarrow> docker_client list option result \<times> DockerLoader \<times> 'w" where
  "Start env dw =
     (case dw of (dl, w) \<Rightarrow>
      if initialized dl then (Inr None, dl, w)
      else
        let dl = dl\<lparr>initialized := True\<rparr>; opts = dl_options dl in
        case (if EnvFile opts \<noteq> [] then start_loadEnvFile env (EnvFile opts) else None) of
          Some err \<Rightarrow> (Inl err, dl, w)
        | None \<Rightarrow>
            (case connect_sockets (start_connect env) opts 0 (DockerSockets opts) of
               Inl err \<Rightarrow> (Inl err, dl, w)
             | Inr socketClients \<Rightarrow>
                 let opts = (if length socketClients = 0
                             then opts\<lparr>DockerSockets := DockerSockets opts @ [start_getenv env ''DOCKER_HOST'']\<rparr> else opts) in
                 case (if length socketClients = 0
                       then map_sum id (\<lambda>sdk. [WrapClient sdk]) (start_connect env None None None)
                       else Inr socketClients) of
                   Inl err \<Rightarrow> (Inl err, dl\<lparr>dl_options := opts\<rparr>, w)
                 | Inr dockerClients \<Rightarrow>
                     let (clients, sockets) =
                           discoverRemoteHosts (start_hostname env) (start_newRemote env) (dockerClients, DockerSockets opts);
                         opts = opts\<lparr>DockerSockets := sockets\<rparr>;
                         c = NewClientFromEnv (start_getenv env);
                         (s, w) = (if Enabled c then snd (ReconcileOnStartup (start_send env) c NewState w) else (NewState, w))
                     in (Inr (Some clients),
                         dl\<lparr>dl_options := opts, gatewayClient := c, gatewayState := s,
                            skipEvents := replicate (length clients) False,
                            generator := CreateGenerator dockerClients opts, timer := 0\<rparr>, w)))"

end
