(* ===== verification/LoaderLaws.thy ===== *)
theory LoaderLaws
  imports Loader GenerateLaws
begin

text \<open>
  What the loader keeps: the lists indexed by clients fit together, the configuration it sends is
  the one of the last Caddyfile, a server that has it is left alone, and whose events are heard.
\<close>

section \<open>After the start\<close>

lemma map_sum_Inr_iff: "map_sum f g x = Inr y \<longleftrightarrow> (\<exists>z. x = Inr z \<and> y = g z)"
  by (cases x) auto

lemma connect_sockets_length: "connect_sockets connect opts i sockets = Inr cs \<Longrightarrow> length cs = length sockets"
  by (induction sockets arbitrary: i cs) (auto simp: map_sum_Inr_iff split: sum.splits)

lemma add_remotes_lengths:
  "length (fst s) = length (snd s) \<Longrightarrow>
   length (fst (add_remotes newRemote es s)) = length (snd (add_remotes newRemote es s))"
  by (induction newRemote es s rule: add_remotes.induct) (auto split: sum.split)

lemma add_remotes_extends: "\<exists>rs. fst (add_remotes newRemote es s) = fst s @ rs"
  by (induction newRemote es s rule: add_remotes.induct) (auto split: sum.split)

lemma discoverRemoteHosts_props:
  assumes "length (fst s) = length (snd s)"
  shows "length (fst (discoverRemoteHosts hostname newRemote s)) = length (snd (discoverRemoteHosts hostname newRemote s))"
    and "\<exists>rs. fst (discoverRemoteHosts hostname newRemote s) = fst s @ rs"
  using assms add_remotes_lengths add_remotes_extends
  by (auto simp: discoverRemoteHosts_def split: sum.split option.split)

lemma Start_props:
  assumes "Start env (dl, w) = (Inr (Some clients), dl', w')"
  shows "length (DockerSockets (dl_options dl')) = length clients" (is ?sockets)
    and "length (skipEvents dl') = length clients" (is ?skip)
    and "\<exists>locals rs. clients = locals @ rs \<and> locals \<noteq> [] \<and> length (swarmIsAvailable (generator dl')) = length locals" (is ?gen)
proof -
  let ?o = "dl_options dl"
  obtain cs where cs: "connect_sockets (start_connect env) ?o 0 (DockerSockets ?o) = Inr cs"
    using assms by (auto simp: Start_def Let_def split: if_splits option.splits sum.splits)
  define opts where "opts = (if length cs = 0 then ?o\<lparr>DockerSockets := DockerSockets ?o @ [start_getenv env ''DOCKER_HOST'']\<rparr> else ?o)"
  obtain locals where locals: "(if length cs = 0 then map_sum id (\<lambda>sdk. [WrapClient sdk]) (start_connect env None None None) else Inr cs) = Inr locals"
    using assms cs by (auto simp: Start_def Let_def split: if_splits option.splits sum.splits)
  have len: "length locals = length (DockerSockets opts)" and ne: "locals \<noteq> []"
    using connect_sockets_length [OF cs] locals by (auto simp: opts_def map_sum_Inr_iff split: if_splits)
  obtain all socks where d: "discoverRemoteHosts (start_hostname env) (start_newRemote env) (locals, DockerSockets opts) = (all, socks)"
    by fastforce
  have "clients = all \<and> DockerSockets (dl_options dl') = socks \<and> length (skipEvents dl') = length all \<and>
      length (swarmIsAvailable (generator dl')) = length locals"
    using assms cs locals d
    by (auto simp: Start_def Let_def opts_def CreateGenerator_def split: if_splits option.splits sum.splits prod.splits)
  moreover have "length all = length socks" "\<exists>rs. all = locals @ rs"
    using discoverRemoteHosts_props [of "(locals, DockerSockets opts)" "start_hostname env" "start_newRemote env"] d len by auto
  ultimately show ?sockets ?skip ?gen using ne by auto
qed

section \<open>Sending\<close>

lemma updateServer_idle:
  assumes "bool_internal (serversUpdating dl) server = None"
  shows "updateServer js post server (dl, w) =
    (if int64_Get (serversVersions dl) server \<ge> lastVersion dl then (dl, w)
     else case send_config js post (dl_options dl) (lastJSONConfig dl) server w of
       (False, w) \<Rightarrow> (dl, w)
     | (True, w) \<Rightarrow> (dl\<lparr>serversVersions := int64_Set server (lastVersion dl) (serversVersions dl)\<rparr>, w))"
proof -
  have "bool_Delete server (bool_Set server True (serversUpdating dl)) = serversUpdating dl"
    using assms by (simp add: bool_Delete_def bool_Set_def fun_upd_idem)
  then show ?thesis
    using assms by (simp add: updateServer_def bool_Get_def Let_def split: prod.split bool.split)
qed

text \<open>A server that answers: it accepts every configuration of this loader.\<close>

definition accepting :: "'x json \<Rightarrow> 'w poster \<Rightarrow> DockerLoader \<Rightarrow> string \<Rightarrow> bool" where
  "accepting js post dl server \<longleftrightarrow> (\<forall>w. fst (send_config js post (dl_options dl) (lastJSONConfig dl) server w))"

lemma accepting_versions [simp]: "accepting js post (dl\<lparr>serversVersions := v\<rparr>) s = accepting js post dl s"
  by (simp add: accepting_def)

definition idle :: "DockerLoader \<Rightarrow> bool" where
  "idle dl \<longleftrightarrow> bool_internal (serversUpdating dl) = Map.empty"

text \<open>What sending changes: the recorded versions, and those only grow to the last version.\<close>

lemma updateServer_versions:
  assumes "idle dl"
  shows "\<exists>v w'. updateServer js post server (dl, w) = (dl\<lparr>serversVersions := v\<rparr>, w') \<and>
    (\<forall>s. int64_Get v s = int64_Get (serversVersions dl) s \<or> (s = server \<and> int64_Get v s = lastVersion dl)) \<and>
    (accepting js post dl server \<longrightarrow> int64_Get v server \<ge> lastVersion dl)"
proof (cases "int64_Get (serversVersions dl) server \<ge> lastVersion dl")
  case True
  then show ?thesis
    using updateServer_idle [of dl server js post w] assms
    by (intro exI [of _ "serversVersions dl"]) (auto simp: idle_def)
next
  case False
  obtain ok w' where s: "send_config js post (dl_options dl) (lastJSONConfig dl) server w = (ok, w')" by fastforce
  have eq: "updateServer js post server (dl, w) =
      (if ok then dl\<lparr>serversVersions := int64_Set server (lastVersion dl) (serversVersions dl)\<rparr> else dl, w')"
    using updateServer_idle [of dl server js post w] assms False s by (simp add: idle_def split: bool.split)
  show ?thesis
  proof (cases ok)
    case True
    then show ?thesis using eq by (intro exI [of _ "int64_Set server (lastVersion dl) (serversVersions dl)"]) (auto simp: int64_map.get_set)
  next
    case notok: False
    then have "\<not> fst (send_config js post (dl_options dl) (lastJSONConfig dl) server w)" using s by simp
    then have "\<not> accepting js post dl server" unfolding accepting_def by blast
    then show ?thesis using eq notok by (intro exI [of _ "serversVersions dl"]) auto
  qed
qed

lemma update_servers:
  assumes "idle dl"
  shows "\<exists>v w'. fold (updateServer js post) servers (dl, w) = (dl\<lparr>serversVersions := v\<rparr>, w') \<and>
    (\<forall>s. int64_Get v s = int64_Get (serversVersions dl) s \<or> int64_Get v s = lastVersion dl) \<and>
    (\<forall>s \<in> set servers. accepting js post dl s \<longrightarrow> int64_Get v s \<ge> lastVersion dl)"
  using assms
proof (induction servers arbitrary: dl w)
  case Nil
  then show ?case by (intro exI [of _ "serversVersions dl"]) simp
next
  case (Cons server servers)
  obtain v1 w1 where 1: "updateServer js post server (dl, w) = (dl\<lparr>serversVersions := v1\<rparr>, w1)"
    "\<forall>s. int64_Get v1 s = int64_Get (serversVersions dl) s \<or> (s = server \<and> int64_Get v1 s = lastVersion dl)"
    "accepting js post dl server \<longrightarrow> int64_Get v1 server \<ge> lastVersion dl"
    using updateServer_versions [OF Cons.prems, of js post server w] by (elim exE conjE) (rule that)
  have "idle (dl\<lparr>serversVersions := v1\<rparr>)" using Cons.prems by (simp add: idle_def)
  from Cons.IH [OF this, of w1] have "\<exists>v w'. fold (updateServer js post) servers (dl\<lparr>serversVersions := v1\<rparr>, w1) = (dl\<lparr>serversVersions := v\<rparr>, w') \<and>
    (\<forall>s. int64_Get v s = int64_Get v1 s \<or> int64_Get v s = lastVersion dl) \<and>
    (\<forall>s \<in> set servers. accepting js post dl s \<longrightarrow> int64_Get v s \<ge> lastVersion dl)" by simp
  then obtain v w' where 2:
    "fold (updateServer js post) servers (dl\<lparr>serversVersions := v1\<rparr>, w1) = (dl\<lparr>serversVersions := v\<rparr>, w')"
    "\<forall>s. int64_Get v s = int64_Get v1 s \<or> int64_Get v s = lastVersion dl"
    "\<forall>s \<in> set servers. accepting js post dl s \<longrightarrow> int64_Get v s \<ge> lastVersion dl"
    by (elim exE conjE) (rule that)
  show ?case
  proof (intro exI conjI)
    show "fold (updateServer js post) (server # servers) (dl, w) = (dl\<lparr>serversVersions := v\<rparr>, w')" using 1(1) 2(1) by simp
    show "\<forall>s. int64_Get v s = int64_Get (serversVersions dl) s \<or> int64_Get v s = lastVersion dl"
      using 1(2) 2(2) by metis
    show "\<forall>s \<in> set (server # servers). accepting js post dl s \<longrightarrow> int64_Get v s \<ge> lastVersion dl"
      using 1(3) 2(2,3) by (metis order_refl set_ConsD)
  qed
qed

lemma update_servers_done:
  assumes "idle dl" "\<forall>s \<in> set servers. int64_Get (serversVersions dl) s \<ge> lastVersion dl"
  shows "fold (updateServer js post) servers (dl, w) = (dl, w)"
  using assms by (induction servers) (simp_all add: updateServer_idle idle_def)

section \<open>Which requests are sent\<close>

text \<open>A poster that also keeps the requests made, as pairs of a URL and a body.\<close>

definition posted :: "'w poster \<Rightarrow> ('w \<times> (string \<times> string) list) poster" where
  "posted post url body w =
     (case w of (v, log) \<Rightarrow> case post url body v of (res, v) \<Rightarrow> (res, (v, log @ [(url, body)])))"

definition config_request :: "'x json \<Rightarrow> DockerLoader \<Rightarrow> string \<Rightarrow> (string \<times> string) list" where
  "config_request js dl server =
     (case addAdminListen js (lastJSONConfig dl) (getServerAdminListen (dl_options dl) server) of
        Inl err \<Rightarrow> []
      | Inr postBody \<Rightarrow> [(''http://'' @ server @ '':2019/load'', postBody)])"

lemma config_request_versions [simp]: "config_request js (dl\<lparr>serversVersions := v\<rparr>) s = config_request js dl s"
  by (simp add: config_request_def)

lemma updateServer_posts:
  assumes "idle dl"
  shows "\<exists>v w'. updateServer js (posted post) server (dl, (w, log)) =
      (dl\<lparr>serversVersions := v\<rparr>,
       (w', log @ (if int64_Get (serversVersions dl) server < lastVersion dl then config_request js dl server else []))) \<and>
    (\<forall>s. s \<noteq> server \<or> lastVersion dl \<le> int64_Get (serversVersions dl) server \<longrightarrow>
       int64_Get v s = int64_Get (serversVersions dl) s)"
proof -
  have b: "bool_internal (serversUpdating dl) server = None" using assms by (simp add: idle_def)
  show ?thesis
  proof (cases "int64_Get (serversVersions dl) server < lastVersion dl")
    case True
    have "\<exists>ok w'. send_config js (posted post) (dl_options dl) (lastJSONConfig dl) server (w, log) =
        (ok, (w', log @ config_request js dl server))"
      by (auto simp: send_config_def config_request_def posted_def split: sum.splits prod.splits)
    then obtain ok w' where s: "send_config js (posted post) (dl_options dl) (lastJSONConfig dl) server (w, log) =
        (ok, (w', log @ config_request js dl server))" by blast
    let ?v = "if ok then int64_Set server (lastVersion dl) (serversVersions dl) else serversVersions dl"
    have "updateServer js (posted post) server (dl, (w, log)) = (dl\<lparr>serversVersions := ?v\<rparr>, (w', log @ config_request js dl server))"
      using True by (simp add: updateServer_idle [of dl server, OF b] s split: bool.split)
    then show ?thesis using True by (intro exI [of _ ?v] exI [of _ w']) (simp add: int64_map.get_set)
  next
    case False
    then show ?thesis
      by (intro exI [of _ "serversVersions dl"] exI [of _ w]) (simp add: updateServer_idle [of dl server, OF b])
  qed
qed

lemma servers_posts:
  assumes "idle dl" and "fold (updateServer js (posted post)) servers (dl, (w, log)) = (dl', (w', log'))"
  shows "\<exists>reqs. log' = log @ reqs \<and>
    set reqs = (\<Union>s \<in> {s \<in> set servers. int64_Get (serversVersions dl) s < lastVersion dl}. set (config_request js dl s))"
  using assms
proof (induction servers arbitrary: dl w log)
  case (Cons server servers)
  let ?req = "if int64_Get (serversVersions dl) server < lastVersion dl then config_request js dl server else []"
  obtain v w1 where 1: "updateServer js (posted post) server (dl, (w, log)) = (dl\<lparr>serversVersions := v\<rparr>, (w1, log @ ?req))"
    "\<forall>s. s \<noteq> server \<or> lastVersion dl \<le> int64_Get (serversVersions dl) server \<longrightarrow>
       int64_Get v s = int64_Get (serversVersions dl) s"
    using updateServer_posts [OF Cons.prems(1), of js post server w log] by (elim exE conjE) (rule that)
  have "idle (dl\<lparr>serversVersions := v\<rparr>)" using Cons.prems(1) by (simp add: idle_def)
  from Cons.IH [OF this, of w1 "log @ ?req"] Cons.prems(2) 1(1) obtain reqs where
    2: "log' = (log @ ?req) @ reqs" "set reqs =
      (\<Union>s \<in> {s \<in> set servers. int64_Get v s < lastVersion dl}. set (config_request js dl s))" by auto
  have "set (?req @ reqs) =
      (\<Union>s \<in> {s \<in> set (server # servers). int64_Get (serversVersions dl) s < lastVersion dl}. set (config_request js dl s))"
    (is "_ = ?all")
  proof (cases "int64_Get (serversVersions dl) server < lastVersion dl")
    case True
    then show ?thesis using 1(2) 2(2) by (auto split: if_splits) metis+
  next
    case False
    then show ?thesis using 1(2) 2(2) by auto
  qed
  then show ?case using 2(1) by (intro exI [of _ "?req @ reqs"]) simp
qed simp

section \<open>The configuration that is sent\<close>

definition config_current :: "(string \<Rightarrow> string result) \<Rightarrow> DockerLoader \<Rightarrow> bool" where
  "config_current adapter dl \<longleftrightarrow>
     idle dl \<and> 0 \<le> lastVersion dl \<and> (lastVersion dl = 0 \<longleftrightarrow> lastCaddyfile dl = []) \<and>
     (lastCaddyfile dl \<noteq> [] \<longrightarrow> adapter (lastCaddyfile dl) = Inr (lastJSONConfig dl)) \<and>
     (\<forall>s. int64_Get (serversVersions dl) s \<le> lastVersion dl)"

lemma config_current_start: "config_current adapter (CreateDockerLoader opts)"
  by (simp add: config_current_def CreateDockerLoader_def idle_def NewStringBoolCMap_def int64_map.get_new)

lemma loader_reconcile_frame:
  "loader_reconcile env (dl, w) = Some (dl', w') \<Longrightarrow> \<exists>s. dl' = dl\<lparr>gatewayState := s\<rparr>"
  by (auto simp: loader_reconcile_def split: sum.splits)

lemma caddyfile_text_nonempty: "caddyfile_text Adapt opts cs \<noteq> []"
  by (simp add: caddyfile_text_eq Let_def)


lemma GenerateCaddyfile_Some:
  assumes "GenerateCaddyfile Adapt expand readFile cid now clients g = Some ((content, srv), g')"
  shows "g' = refresh cid now clients g" and "\<exists>cs. content = caddyfile_text Adapt (options g) cs"
  using assms by (auto simp: GenerateCaddyfile_eq Let_def split: if_splits)

text \<open>The files after an update that generated this Caddyfile.\<close>

abbreviation saved :: "('x, 'w) environment \<Rightarrow> DockerLoader \<Rightarrow> string \<Rightarrow> 'w \<Rightarrow> 'w" where
  "saved env dl caddyfile w \<equiv> if lastCaddyfile dl \<noteq> caddyfile then autosave (env_files env) caddyfile w else w"

text \<open>The state in which an update generates, and the one after it published the Caddyfile.\<close>

definition rearmed :: "DockerLoader \<Rightarrow> DockerLoader" where
  "rearmed dl = dl\<lparr>timer := PollingInterval (dl_options dl), skipEvents := map (\<lambda>_. False) (skipEvents dl)\<rparr>"

lemma rearmed_simps [simp]:
  "dl_options (rearmed dl) = dl_options dl" "generator (rearmed dl) = generator dl"
  "lastCaddyfile (rearmed dl) = lastCaddyfile dl" "lastJSONConfig (rearmed dl) = lastJSONConfig dl"
  "lastVersion (rearmed dl) = lastVersion dl" "serversVersions (rearmed dl) = serversVersions dl"
  "serversUpdating (rearmed dl) = serversUpdating dl" "gatewayState (rearmed dl) = gatewayState dl"
  "gatewayClient (rearmed dl) = gatewayClient dl"
  by (simp_all add: rearmed_def)

abbreviation generate :: "('x, 'w) environment \<Rightarrow> DockerLoader \<Rightarrow> ((string \<times> string list) \<times> CaddyfileGenerator) option" where
  "generate env dl \<equiv> GenerateCaddyfile (adapter_error (env_adapter env)) (env_expand env) (env_readFile env)
     (env_currentContainerID env) (env_now env) (local_clients dl env) (generator dl)"

lemma update_eq:
  "update env (dl, w) =
     (case generate env dl of
        None \<Rightarrow> None
      | Some ((caddyfile, srv), g) \<Rightarrow>
          (case publish (env_adapter env) caddyfile ((rearmed dl)\<lparr>generator := g\<rparr>) of
             (dl1, False) \<Rightarrow> Some ((dl1, saved env dl caddyfile w), False)
           | (dl1, True) \<Rightarrow>
               map_option (\<lambda>dw. (dw, True))
                 (loader_reconcile env (fold (updateServer (env_json env) (env_post env)) srv (dl1, saved env dl caddyfile w)))))"
  unfolding update_def local_clients_def Let_def prod.case rearmed_def [symmetric] rearmed_simps ..

lemma publish_same: "lastCaddyfile dl = caddyfile \<Longrightarrow> publish adapter caddyfile dl = (dl, True)"
  by (auto simp: publish_def)

lemma publish_accepted:
  assumes "config_current adapter dl" "adapter caddyfile = Inr j" "caddyfile \<noteq> []"
  shows "\<exists>dl'. publish adapter caddyfile dl = (dl', True) \<and> config_current adapter dl' \<and> 0 < lastVersion dl' \<and>
    lastCaddyfile dl' = caddyfile \<and> dl_options dl' = dl_options dl \<and> generator dl' = generator dl"
proof (cases "lastCaddyfile dl = caddyfile")
  case True
  then have "publish adapter caddyfile dl = (dl, True)" by (rule publish_same)
  then show ?thesis using assms True by (auto simp: config_current_def)
next
  case False
  then have "publish adapter caddyfile dl =
      (dl\<lparr>lastCaddyfile := caddyfile, lastJSONConfig := j, lastVersion := lastVersion dl + 1\<rparr>, True)"
    using assms(2) by (simp add: publish_def)
  then show ?thesis
    using assms by (auto simp: config_current_def idle_def intro: order_trans)
qed

lemma versions_current:
  assumes "config_current adapter dl"
    and "\<forall>s. int64_Get v s = int64_Get (serversVersions dl) s \<or> int64_Get v s = lastVersion dl"
  shows "config_current adapter (dl\<lparr>serversVersions := v\<rparr>)"
proof -
  have "int64_Get v s \<le> lastVersion dl" for s using assms by (metis config_current_def order_refl)
  then show ?thesis using assms(1) by (simp add: config_current_def idle_def)
qed

text \<open>With checking on, every update that does not panic gets its Caddyfile through the adapter.\<close>

lemma update_current:
  assumes "config_current (env_adapter env) dl" and "ProcessCaddyfile (options (generator dl))"
    and "env_adapter env ''# Empty caddyfile'' = Inr j" and "update env (dl, w) = Some ((dl', w'), ok)"
  shows "ok \<and> config_current (env_adapter env) dl' \<and> 0 < lastVersion dl' \<and> generator dl' = snd (the (generate env dl)) \<and>
    lastCaddyfile dl' = fst (fst (the (generate env dl))) \<and>
    (\<forall>s \<in> set (snd (fst (the (generate env dl)))). accepting (env_json env) (env_post env) dl' s \<longrightarrow>
       int64_Get (serversVersions dl') s \<ge> lastVersion dl')"
proof -
  obtain content srv g where gen: "generate env dl = Some ((content, srv), g)"
    using assms(4) by (auto simp: update_eq split: option.splits)
  from GenerateCaddyfile_Some(2) [OF this] obtain cs where
    content: "content = caddyfile_text (adapter_error (env_adapter env)) (options (generator dl)) cs" by blast
  have "adapter_error (env_adapter env) content = None"
    unfolding content by (rule caddyfile_text_accepted) (simp_all add: assms(2,3) adapter_error_def)
  then obtain jc where jc: "env_adapter env content = Inr jc"
    by (auto simp: adapter_error_def split: sum.splits)
  have "config_current (env_adapter env) ((rearmed dl)\<lparr>generator := g\<rparr>)"
    using assms(1) by (simp add: config_current_def idle_def)
  from publish_accepted [OF this jc] content caddyfile_text_nonempty obtain dl1 where
    dl1: "publish (env_adapter env) content ((rearmed dl)\<lparr>generator := g\<rparr>) = (dl1, True)"
      "config_current (env_adapter env) dl1" "0 < lastVersion dl1" "lastCaddyfile dl1 = content" "generator dl1 = g"
    by auto
  then have "idle dl1" by (simp add: config_current_def)
  from update_servers [OF this, of "env_json env" "env_post env" srv "saved env dl content w"] obtain v w1 where
    f: "fold (updateServer (env_json env) (env_post env)) srv (dl1, saved env dl content w) = (dl1\<lparr>serversVersions := v\<rparr>, w1)"
      "\<forall>s. int64_Get v s = int64_Get (serversVersions dl1) s \<or> int64_Get v s = lastVersion dl1"
      "\<forall>s \<in> set srv. accepting (env_json env) (env_post env) dl1 s \<longrightarrow> int64_Get v s \<ge> lastVersion dl1"
    by (elim exE conjE) (rule that)
  have "loader_reconcile env (dl1\<lparr>serversVersions := v\<rparr>, w1) = Some (dl', w') \<and> ok"
    using assms(4) gen dl1(1) f(1) by (auto simp: update_eq)
  then obtain s where "dl' = dl1\<lparr>serversVersions := v, gatewayState := s\<rparr>" "ok"
    using loader_reconcile_frame by metis
  then show ?thesis
    using versions_current [OF dl1(2) f(2)] dl1(3-5) gen f(3) by (simp add: config_current_def idle_def accepting_def)
qed

section \<open>Nothing new, nothing sent\<close>

lemma refresh_idem: "refresh cid now clients (refresh cid now clients g) = refresh cid now clients g"
proof -
  obtain m where g1: "(case getIngressNetworks cid clients g of Inl err \<Rightarrow> g | Inr m \<Rightarrow> g\<lparr>ingressNetworks := m\<rparr>) =
      g\<lparr>ingressNetworks := m\<rparr>" and m: "\<And>g'. options g' = options g \<Longrightarrow> ingressNetworks g' = m \<Longrightarrow>
      (case getIngressNetworks cid clients g' of Inl err \<Rightarrow> g' | Inr m \<Rightarrow> g'\<lparr>ingressNetworks := m\<rparr>) = g'"
  proof (cases "getIngressNetworks cid clients g")
    case (Inl e)
    then show ?thesis by (intro that [of "ingressNetworks g"]) (simp_all add: getIngressNetworks_def)
  next
    case (Inr m)
    then show ?thesis by (intro that [of m]) (simp_all add: getIngressNetworks_def)
  qed
  show ?thesis
    by (simp add: refresh_def g1 m checkSwarmAvailability_def Let_def swarmAvailabilityCacheInterval_def)
qed

lemma generate_again:
  assumes "generate env dl = Some (cs, g)" and "generator dl' = g"
    and "length (swarmIsAvailable g) = length (swarmIsAvailable (generator dl))"
  shows "generate env dl' = Some (cs, g)"
proof -
  obtain content srv where cs: "cs = (content, srv)" by fastforce
  have same: "local_clients dl' env = local_clients dl env" using assms(2,3) by (simp add: local_clients_def)
  let ?refresh = "refresh (env_currentContainerID env) (env_now env) (local_clients dl env)"
  have g: "?refresh (generator dl) = g" using GenerateCaddyfile_Some(1) [OF assms(1) [unfolded cs]] by simp
  then have "?refresh g = g" using refresh_idem by metis
  then show ?thesis
    using assms(1) unfolding same assms(2) GenerateCaddyfile_eq Let_def g by (simp split: if_split_asm)
qed

lemma refresh_length:
  "length (swarmIsAvailable g) = length clients \<Longrightarrow> length (swarmIsAvailable (refresh cid now clients g)) = length clients"
  by (simp add: refresh_def checkSwarmAvailability_def Let_def split: sum.split option.split)

text \<open>An update right after another one generates the same Caddyfile and leaves the servers that took the
  configuration alone: only the gateway is looked at again.\<close>

lemma update_again:
  assumes "config_current (env_adapter env) dl" and "ProcessCaddyfile (options (generator dl))"
    and "env_adapter env ''# Empty caddyfile'' = Inr j" and "update env (dl, w) = Some ((dl', w'), ok)"
    and "length (swarmIsAvailable (generator dl)) \<le> length (env_clients env)"
    and "\<forall>s \<in> set (snd (fst (the (generate env dl)))). accepting (env_json env) (env_post env) dl' s"
  shows "update env (dl', w2) = map_option (\<lambda>dw. (dw, True)) (loader_reconcile env (rearmed dl', w2))"
proof -
  obtain content srv g where gen: "generate env dl = Some ((content, srv), g)"
    using assms(4) by (auto simp: update_eq split: option.splits)
  note cur = update_current [OF assms(1-4)]
  have len: "length (swarmIsAvailable (generator dl)) = length (local_clients dl env)"
    using assms(5) by (simp add: local_clients_def)
  have g: "generator dl' = g" "lastCaddyfile dl' = content" using cur gen by auto
  have "length (swarmIsAvailable g) = length (swarmIsAvailable (generator dl))"
    using refresh_length [OF len] GenerateCaddyfile_Some(1) [OF gen] len by simp
  from generate_again [OF gen g(1) this] have gen': "generate env dl' = Some ((content, srv), g)" .
  have pub: "publish (env_adapter env) content ((rearmed dl')\<lparr>generator := g\<rparr>) = (rearmed dl', True)"
    using g by (simp add: publish_def rearmed_def)
  have "idle (rearmed dl')" using cur by (simp add: config_current_def idle_def)
  then have "fold (updateServer (env_json env) (env_post env)) srv (rearmed dl', w2) = (rearmed dl', w2)"
    by (rule update_servers_done) (use cur assms(6) gen in simp)
  then show ?thesis using g(2) by (simp add: update_eq gen' pub)
qed

section \<open>Events\<close>

text \<open>The events of a client that come before its first error.\<close>

fun heard_events :: "received list \<Rightarrow> docker_event list" where
  "heard_events [] = []"
| "heard_events (Event e # rs) = e # heard_events rs"
| "heard_events (Error err # rs) = []"

lemma on_event_skipped: "skipEvents dl ! i \<Longrightarrow> on_event i e dl = dl"
  by (simp add: on_event_def)

lemma listen_client_skipped: "skipEvents dl ! i \<Longrightarrow> fst (listen_client i rs dl) = dl"
  by (induction i rs dl rule: listen_client.induct) (simp_all add: on_event_skipped)

text \<open>However many events a client delivers, the timer is rearmed once, for the first that is relevant.\<close>

lemma listen_client_eq:
  assumes "i < length (skipEvents dl)"
  shows "fst (listen_client i rs dl) =
    (if \<not> skipEvents dl ! i \<and> list_ex relevant_event (heard_events rs)
     then dl\<lparr>skipEvents := (skipEvents dl)[i := True], timer := EventThrottleInterval (dl_options dl)\<rparr> else dl)"
  using assms
proof (induction i rs dl rule: listen_client.induct)
  case (2 i e rs dl)
  show ?case
  proof (cases "\<not> skipEvents dl ! i \<and> relevant_event e")
    case True
    let ?dl = "dl\<lparr>skipEvents := (skipEvents dl)[i := True], timer := EventThrottleInterval (dl_options dl)\<rparr>"
    have "on_event i e dl = ?dl" using True by (simp add: on_event_def)
    moreover have "skipEvents ?dl ! i" using 2(2) by simp
    ultimately show ?thesis using True listen_client_skipped [of ?dl i rs] by simp
  next
    case False
    then have "on_event i e dl = dl" by (auto simp: on_event_def)
    then show ?thesis using 2 False by auto
  qed
qed simp_all

lemma listen_client_ends: "snd (listen_client i rs dl) \<longleftrightarrow> (\<exists>err. Error err \<in> set rs)"
  by (induction i rs dl rule: listen_client.induct) auto

lemma listenEvents_blocked:
  assumes "\<forall>err. Error err \<notin> set rs"
  shows "listenEvents i (rs # streams) dl = (fst (listen_client i rs dl), False)"
  using listen_client_ends [of i rs dl] assms by (cases "listen_client i rs dl") auto

end
