(* ===== verification/EventLoop.thy ===== *)
theory EventLoop
  imports LoaderLaws
begin

text \<open>
  How events and updates run together (\<open>listenEvents\<close> and \<open>update\<close> of \<open>loader.go\<close>). The listener is one
  goroutine; each time the timer fires, an update starts in a goroutine of its own, so updates can
  overlap. They share the flags \<open>skipEvents\<close> and the timer without a lock. A step is one access to these.
\<close>

section \<open>Steps\<close>

text \<open>The timer is armed with one of the two intervals, or has fired.\<close>

datatype timer_state = Fired | Polling | Throttled

text \<open>Where the listener is: it waits, or handles an event of client \<open>i\<close>.\<close>

datatype listener_pc = Waiting | Check_skip nat docker_event | Set_skip nat | Reset_timer

text \<open>Where an update is before it generates: the timer, the flags one by one, the generation.\<close>

datatype update_pc = Rearm | Clear nat | Collect

text \<open>\<open>es_unseen\<close> (not a variable of the program): a relevant event was received, and no generation has
  begun since.\<close>

record event_system =
  es_skip :: "bool list"
  es_timer :: timer_state
  es_listener :: listener_pc
  es_updates :: "update_pc list"
  es_unseen :: bool

inductive event_step :: "event_system \<Rightarrow> event_system \<Rightarrow> bool" where
  receive: "es_listener st = Waiting \<Longrightarrow> i < length (es_skip st) \<Longrightarrow>
    event_step st (st\<lparr>es_listener := Check_skip i e, es_unseen := es_unseen st \<or> relevant_event e\<rparr>)"
| skipped: "es_listener st = Check_skip i e \<Longrightarrow> es_skip st ! i \<Longrightarrow> event_step st (st\<lparr>es_listener := Waiting\<rparr>)"
| irrelevant: "es_listener st = Check_skip i e \<Longrightarrow> \<not> es_skip st ! i \<Longrightarrow> \<not> relevant_event e \<Longrightarrow>
    event_step st (st\<lparr>es_listener := Waiting\<rparr>)"
| noticed: "es_listener st = Check_skip i e \<Longrightarrow> \<not> es_skip st ! i \<Longrightarrow> relevant_event e \<Longrightarrow>
    event_step st (st\<lparr>es_listener := Set_skip i\<rparr>)"
| set_skip: "es_listener st = Set_skip i \<Longrightarrow>
    event_step st (st\<lparr>es_skip := (es_skip st)[i := True], es_listener := Reset_timer\<rparr>)"
| reset_timer: "es_listener st = Reset_timer \<Longrightarrow> event_step st (st\<lparr>es_timer := Throttled, es_listener := Waiting\<rparr>)"
| timer_fires: "es_timer st \<noteq> Fired \<Longrightarrow>
    event_step st (st\<lparr>es_timer := Fired, es_updates := es_updates st @ [Rearm]\<rparr>)"
| rearm: "j < length (es_updates st) \<Longrightarrow> es_updates st ! j = Rearm \<Longrightarrow>
    event_step st (st\<lparr>es_timer := Polling, es_updates := (es_updates st)[j := Clear 0]\<rparr>)"
| clear: "j < length (es_updates st) \<Longrightarrow> es_updates st ! j = Clear k \<Longrightarrow> k < length (es_skip st) \<Longrightarrow>
    event_step st (st\<lparr>es_skip := (es_skip st)[k := False], es_updates := (es_updates st)[j := Clear (k + 1)]\<rparr>)"
| cleared: "j < length (es_updates st) \<Longrightarrow> es_updates st ! j = Clear k \<Longrightarrow> length (es_skip st) \<le> k \<Longrightarrow>
    event_step st (st\<lparr>es_updates := (es_updates st)[j := Collect]\<rparr>)"
| collect: "j < length (es_updates st) \<Longrightarrow> es_updates st ! j = Collect \<Longrightarrow>
    event_step st (st\<lparr>es_unseen := False, es_updates := take j (es_updates st) @ drop (j + 1) (es_updates st)\<rparr>)"

text \<open>\<open>Start\<close> sets a timer that fires at once.\<close>

inductive event_reachable :: "nat \<Rightarrow> event_system \<Rightarrow> bool" for n where
  event_start: "event_reachable n
    \<lparr>es_skip = replicate n False, es_timer = Fired, es_listener = Waiting, es_updates = [Rearm], es_unseen = False\<rparr>"
| event_next: "event_reachable n st \<Longrightarrow> event_step st st' \<Longrightarrow> event_reachable n st'"

section \<open>No event is missed\<close>

text \<open>An update that will still clear the flag of client \<open>i\<close>, and so will still generate.\<close>

definition clears :: "nat \<Rightarrow> update_pc \<Rightarrow> bool" where
  "clears i u = (case u of Rearm \<Rightarrow> True | Clear k \<Rightarrow> k \<le> i | Collect \<Rightarrow> False)"

definition flags_ok :: "event_system \<Rightarrow> bool" where
  "flags_ok st \<longleftrightarrow> (\<forall>i < length (es_skip st). es_skip st ! i \<longrightarrow>
     es_timer st = Throttled \<or> es_listener st = Reset_timer \<or> (\<exists>u \<in> set (es_updates st). clears i u))"

definition handling :: "listener_pc \<Rightarrow> bool" where
  "handling l = (case l of Waiting \<Rightarrow> False | Check_skip i e \<Rightarrow> relevant_event e | _ \<Rightarrow> True)"

definition events_ok :: "event_system \<Rightarrow> bool" where
  "events_ok st \<longleftrightarrow> (es_unseen st \<longrightarrow> es_timer st = Throttled \<or> handling (es_listener st) \<or> es_updates st \<noteq> [])"

definition listener_ok :: "event_system \<Rightarrow> bool" where
  "listener_ok st = (case es_listener st of Check_skip i e \<Rightarrow> i < length (es_skip st) | Set_skip i \<Rightarrow> i < length (es_skip st) | _ \<Rightarrow> True)"

lemma set_update_other: "j < length us \<Longrightarrow> u \<in> set us \<Longrightarrow> u \<noteq> us ! j \<Longrightarrow> u \<in> set (us[j := v])"
  by (metis in_set_conv_nth length_list_update nth_list_update_neq)

lemma set_remove_other: "j < length us \<Longrightarrow> u \<in> set us \<Longrightarrow> u \<noteq> us ! j \<Longrightarrow> u \<in> set (take j us @ drop (j + 1) us)"
  by (metis Un_iff id_take_nth_drop set_ConsD set_append Suc_eq_plus1)

lemma listener_ok_step: "event_step st st' \<Longrightarrow> listener_ok st \<Longrightarrow> listener_ok st'"
  by (induction rule: event_step.induct) (auto simp: listener_ok_def split: listener_pc.splits)

text \<open>A flag that is set has someone who will act on it.\<close>

lemma flags_ok_step:
  assumes "event_step st st'" and "flags_ok st"
  shows "flags_ok st'"
  using assms
proof (induction rule: event_step.induct)
  case (set_skip st i)
  then show ?case by (simp add: flags_ok_def)
next
  case (rearm j st)
  have "Clear 0 \<in> set ((es_updates st)[j := Clear 0])" using rearm(1) by (rule set_update_memI)
  then show ?case by (auto simp: flags_ok_def clears_def intro!: bexI [of _ "Clear 0"])
next
  case (clear j st k)
  show ?case
    unfolding flags_ok_def
  proof (intro allI impI)
    fix i assume i: "i < length (es_skip (st\<lparr>es_skip := (es_skip st)[k := False], es_updates := (es_updates st)[j := Clear (k + 1)]\<rparr>))"
      "es_skip (st\<lparr>es_skip := (es_skip st)[k := False], es_updates := (es_updates st)[j := Clear (k + 1)]\<rparr>) ! i"
    then have "i \<noteq> k" "es_skip st ! i" "i < length (es_skip st)" using clear(3) by (auto simp: nth_list_update split: if_splits)
    then consider "es_timer st = Throttled \<or> es_listener st = Reset_timer" | u where "u \<in> set (es_updates st)" "clears i u"
      using clear(4) by (auto simp: flags_ok_def)
    then show "es_timer (st\<lparr>es_skip := (es_skip st)[k := False], es_updates := (es_updates st)[j := Clear (k + 1)]\<rparr>) = Throttled \<or>
        es_listener (st\<lparr>es_skip := (es_skip st)[k := False], es_updates := (es_updates st)[j := Clear (k + 1)]\<rparr>) = Reset_timer \<or>
        (\<exists>u \<in> set (es_updates (st\<lparr>es_skip := (es_skip st)[k := False], es_updates := (es_updates st)[j := Clear (k + 1)]\<rparr>)). clears i u)"
    proof cases
      case 2
      show ?thesis
      proof (cases "u = Clear k")
        case True
        then have "clears i (Clear (k + 1))" using 2(2) \<open>i \<noteq> k\<close> by (simp add: clears_def)
        then show ?thesis using set_update_memI [OF clear(1)] by auto
      next
        case False
        then show ?thesis using set_update_other [OF clear(1) 2(1)] clear(2) 2(2) by auto
      qed
    qed auto
  qed
next
  case (cleared j st k)
  then show ?case
    using set_update_other [OF cleared(1)] by (fastforce simp: flags_ok_def clears_def)
next
  case (collect j st)
  then show ?case
    using set_remove_other [OF collect(1)] by (fastforce simp: flags_ok_def clears_def)
qed (auto simp: flags_ok_def clears_def)

lemma events_ok_step:
  assumes "event_step st st'" and "flags_ok st" and "events_ok st" and "listener_ok st"
  shows "events_ok st'"
  using assms
proof (induction rule: event_step.induct)
  case (skipped st i e)
  then have "es_timer st = Throttled \<or> es_updates st \<noteq> []"
    by (auto simp: flags_ok_def listener_ok_def)
  then show ?case by (auto simp: events_ok_def)
qed (auto simp: events_ok_def handling_def)

lemma event_invariants:
  assumes "event_reachable n st"
  shows "flags_ok st \<and> events_ok st \<and> listener_ok st"
  using assms
proof (induction rule: event_reachable.induct)
  case event_start
  then show ?case by (simp add: flags_ok_def events_ok_def listener_ok_def)
next
  case (event_next st st')
  then show ?case using flags_ok_step events_ok_step listener_ok_step by blast
qed

section \<open>Running alone\<close>

text \<open>The steps for an event, when nothing else runs, are \<open>on_event\<close>.\<close>

lemma listener_alone:
  assumes "es_listener st = Check_skip i e" and "es_skip st = skipEvents dl"
  shows "\<exists>st'. event_step\<^sup>*\<^sup>* st st' \<and> es_listener st' = Waiting \<and> es_skip st' = skipEvents (on_event i e dl) \<and>
    es_timer st' = (if \<not> skipEvents dl ! i \<and> relevant_event e then Throttled else es_timer st) \<and> es_updates st' = es_updates st"
proof (cases "\<not> skipEvents dl ! i \<and> relevant_event e")
  case True
  let ?s1 = "st\<lparr>es_listener := Set_skip i\<rparr>"
  let ?s2 = "?s1\<lparr>es_skip := (es_skip ?s1)[i := True], es_listener := Reset_timer\<rparr>"
  let ?s3 = "?s2\<lparr>es_timer := Throttled, es_listener := Waiting\<rparr>"
  have 1: "event_step st ?s1" by (rule noticed) (use assms True in auto)
  have 2: "event_step ?s1 ?s2" by (rule set_skip) simp
  have 3: "event_step ?s2 ?s3" by (rule reset_timer) simp
  have "event_step\<^sup>*\<^sup>* st ?s3"
    by (rule converse_rtranclp_into_rtranclp, rule 1, rule converse_rtranclp_into_rtranclp, rule 2,
        rule converse_rtranclp_into_rtranclp, rule 3, rule rtranclp.rtrancl_refl)
  moreover have "on_event i e dl = dl\<lparr>skipEvents := (skipEvents dl)[i := True], timer := EventThrottleInterval (dl_options dl)\<rparr>"
    using True by (simp add: on_event_def)
  ultimately show ?thesis using assms True by (intro exI [of _ ?s3]) simp
next
  case False
  have "event_step st (st\<lparr>es_listener := Waiting\<rparr>)"
    using False assms skipped [of st i e] irrelevant [of st i e] by auto
  moreover have "on_event i e dl = dl" using False by (auto simp: on_event_def)
  ultimately show ?thesis using assms False by (intro exI [of _ "st\<lparr>es_listener := Waiting\<rparr>"]) auto
qed

text \<open>The steps of an update up to its generation leave the timer as \<open>rearmed\<close> sets it, with all flags cleared.\<close>

lemma clear_steps:
  assumes "es_updates st = us @ [Clear k]" and "k \<le> length (es_skip st)" and "\<forall>i < k. \<not> es_skip st ! i"
  shows "event_step\<^sup>*\<^sup>* st (st\<lparr>es_skip := map (\<lambda>_. False) (es_skip st), es_updates := us @ [Collect]\<rparr>)"
  using assms
proof (induction "length (es_skip st) - k" arbitrary: st k)
  case 0
  then have "es_skip st = map (\<lambda>_. False) (es_skip st)" by (intro nth_equalityI) auto
  moreover have "event_step st (st\<lparr>es_updates := (es_updates st)[length us := Collect]\<rparr>)"
    by (rule cleared [of _ _ k]) (use 0 in auto)
  ultimately show ?case using 0 by (simp add: r_into_rtranclp)
next
  case (Suc d)
  let ?s = "st\<lparr>es_skip := (es_skip st)[k := False], es_updates := (es_updates st)[length us := Clear (k + 1)]\<rparr>"
  have "event_step st ?s" by (rule clear) (use Suc in auto)
  moreover have "event_step\<^sup>*\<^sup>* ?s (?s\<lparr>es_skip := map (\<lambda>_. False) (es_skip ?s), es_updates := us @ [Collect]\<rparr>)"
    by (rule Suc.hyps(1) [of _ "k + 1"]) (use Suc in \<open>auto simp: nth_list_update less_Suc_eq\<close>)
  moreover have "map (\<lambda>_. False) ((es_skip st)[k := False]) = map (\<lambda>_. False) (es_skip st)"
    by (simp add: map_replicate_const)
  ultimately show ?case by (simp add: converse_rtranclp_into_rtranclp)
qed

lemma update_alone:
  assumes "es_updates st = us @ [Rearm]" and "es_skip st = skipEvents dl"
  shows "event_step\<^sup>*\<^sup>* st (st\<lparr>es_timer := Polling, es_skip := skipEvents (rearmed dl), es_updates := us @ [Collect]\<rparr>)"
proof -
  let ?s = "st\<lparr>es_timer := Polling, es_updates := (es_updates st)[length us := Clear 0]\<rparr>"
  have "event_step st ?s" by (rule rearm) (use assms in auto)
  moreover have "event_step\<^sup>*\<^sup>* ?s (?s\<lparr>es_skip := map (\<lambda>_. False) (es_skip ?s), es_updates := us @ [Collect]\<rparr>)"
    by (rule clear_steps [of _ _ 0]) (use assms in auto)
  ultimately show ?thesis using assms by (simp add: rearmed_def converse_rtranclp_into_rtranclp)
qed

end
