(* ===== verification/Workers.thy ===== *)
theory Workers
  imports LoaderLaws
begin

text \<open>
  The goroutines of \<open>updateServer\<close> (\<open>loader.go\<close>), step by step. Several of them can run at a time: those
  of one update, and those of an earlier update whose requests take longer than the polling
  interval. A step is one access to shared state, or the handling of a request by a server.
\<close>

section \<open>Steps\<close>

text \<open>
  The shared variables, and (not variables of the program) what each server runs and which
  configurations it took.
\<close>

record shared =
  sh_version :: int
  sh_json :: string
  sh_versions :: StringInt64CMap
  sh_updating :: StringBoolCMap
  sh_runs :: "string \<rightharpoonup> string"
  sh_accepted :: "(string \<times> string) list"

text \<open>Where a goroutine is, with the local variables it needs from there on.\<close>

datatype worker_pc =
  Check_flag | Set_flag | Read_version | Compare_version int | Read_config int | Post_config int string
| Record_version int | Clear_flag | Finished

text \<open>How sending ends: the server takes the configuration and the response arrives; or it does not take
  it (or the request is never made); or it takes it and the response is lost.\<close>

datatype post_result = Accepted | Refused | Response_lost

definition accept_config :: "string \<Rightarrow> string \<Rightarrow> shared \<Rightarrow> shared" where
  "accept_config server configJSON sh =
     sh\<lparr>sh_runs := (sh_runs sh)(server \<mapsto> configJSON), sh_accepted := (server, configJSON) # sh_accepted sh\<rparr>"

fun worker_step :: "post_result \<Rightarrow> string \<Rightarrow> worker_pc \<times> shared \<Rightarrow> worker_pc \<times> shared" where
  "worker_step res server (Check_flag, sh) =
     (if bool_Get (sh_updating sh) server then Finished else Set_flag, sh)"
| "worker_step res server (Set_flag, sh) =
     (Read_version, sh\<lparr>sh_updating := bool_Set server True (sh_updating sh)\<rparr>)"
| "worker_step res server (Read_version, sh) = (Compare_version (sh_version sh), sh)"
| "worker_step res server (Compare_version version, sh) =
     (if int64_Get (sh_versions sh) server \<ge> version then Clear_flag else Read_config version, sh)"
| "worker_step res server (Read_config version, sh) = (Post_config version (sh_json sh), sh)"
| "worker_step res server (Post_config version configJSON, sh) =
     (case res of
        Accepted \<Rightarrow> (Record_version version, accept_config server configJSON sh)
      | Refused \<Rightarrow> (Clear_flag, sh)
      | Response_lost \<Rightarrow> (Clear_flag, accept_config server configJSON sh))"
| "worker_step res server (Record_version version, sh) =
     (Clear_flag, sh\<lparr>sh_versions := int64_Set server version (sh_versions sh)\<rparr>)"
| "worker_step res server (Clear_flag, sh) =
     (Finished, sh\<lparr>sh_updating := bool_Delete server (sh_updating sh)\<rparr>)"
| "worker_step res server (Finished, sh) = (Finished, sh)"

record system =
  shared_state :: shared
  publishing :: bool
  history :: "string list"
  workers :: "(string \<times> worker_pc) list"

text \<open>
  The actions: an update publishes a new configuration, which are two assignments, and starts a
  goroutine for a server; a goroutine makes a step. \<open>history\<close> is the list of the configurations
  published so far, the first being that of version 1.
\<close>

datatype action = Publish_config string | Bump_version | Start_worker string | Step_worker nat post_result

fun act :: "action \<Rightarrow> system \<Rightarrow> system" where
  "act (Publish_config configJSON) st =
     (if publishing st then st
      else st\<lparr>shared_state := (shared_state st)\<lparr>sh_json := configJSON\<rparr>, publishing := True,
              history := history st @ [configJSON]\<rparr>)"
| "act Bump_version st =
     (if publishing st
      then st\<lparr>shared_state := (shared_state st)\<lparr>sh_version := sh_version (shared_state st) + 1\<rparr>, publishing := False\<rparr>
      else st)"
| "act (Start_worker server) st =
     st\<lparr>workers := workers st @ [(server, Check_flag)]\<rparr>"
| "act (Step_worker i res) st =
     (if i < length (workers st) then
        (case workers st ! i of (server, pc) \<Rightarrow>
         case worker_step res server (pc, shared_state st) of (pc', sh') \<Rightarrow>
         st\<lparr>shared_state := sh', workers := (workers st)[i := (server, pc')]\<rparr>)
      else st)"

definition start_system :: system where
  "start_system =
     \<lparr>shared_state = \<lparr>sh_version = 0, sh_json = [], sh_versions = NewStringInt64CMap, sh_updating = NewStringBoolCMap,
        sh_runs = Map.empty, sh_accepted = []\<rparr>, publishing = False, history = [], workers = []\<rparr>"

inductive reachable :: "system \<Rightarrow> bool" where
  reachable_start: "reachable start_system"
| reachable_act: "reachable st \<Longrightarrow> reachable (act a st)"

lemma reachable_acts: "reachable st \<Longrightarrow> reachable (fold act as st)"
  by (induction as arbitrary: st) (auto intro: reachable_act)

section \<open>What holds in every interleaving\<close>

text \<open>The configuration published as a version or later.\<close>

definition published_since :: "string list \<Rightarrow> int \<Rightarrow> string \<Rightarrow> bool" where
  "published_since hist v configJSON \<longleftrightarrow> 0 < v \<and> (\<exists>k. nat v \<le> k \<and> k \<le> length hist \<and> hist ! (k - 1) = configJSON)"

definition pc_ok :: "system \<Rightarrow> string \<Rightarrow> worker_pc \<Rightarrow> bool" where
  "pc_ok st server pc \<longleftrightarrow>
     (case pc of
        Compare_version v \<Rightarrow> v \<le> sh_version (shared_state st)
      | Read_config v \<Rightarrow> 0 < v \<and> v \<le> sh_version (shared_state st)
      | Post_config v configJSON \<Rightarrow> v \<le> sh_version (shared_state st) \<and> published_since (history st) v configJSON
      | Record_version v \<Rightarrow> v \<le> sh_version (shared_state st) \<and>
          (\<exists>configJSON. published_since (history st) v configJSON \<and> (server, configJSON) \<in> set (sh_accepted (shared_state st)))
      | _ \<Rightarrow> True)"

definition version_ok :: "system \<Rightarrow> string \<Rightarrow> bool" where
  "version_ok st server \<longleftrightarrow>
     (let v = int64_Get (sh_versions (shared_state st)) server in
      0 \<le> v \<and> v \<le> sh_version (shared_state st) \<and>
      (0 < v \<longrightarrow> (\<exists>configJSON. published_since (history st) v configJSON \<and>
         (server, configJSON) \<in> set (sh_accepted (shared_state st)))))"

definition system_inv :: "system \<Rightarrow> bool" where
  "system_inv st \<longleftrightarrow>
     length (history st) = nat (sh_version (shared_state st)) + (if publishing st then 1 else 0) \<and>
     0 \<le> sh_version (shared_state st) \<and>
     (history st \<noteq> [] \<longrightarrow> sh_json (shared_state st) = last (history st)) \<and>
     (\<forall>w \<in> set (workers st). pc_ok st (fst w) (snd w)) \<and>
     (\<forall>server. version_ok st server)"

lemma system_inv_start: "system_inv start_system"
  by (simp add: system_inv_def start_system_def version_ok_def int64_map.get_new)

lemma published_since_append: "published_since hist v c \<Longrightarrow> published_since (hist @ xs) v c"
  unfolding published_since_def by (auto simp: nth_append)

text \<open>Whatever is known of a goroutine and of a recorded version stays true when versions, history and
  accepted configurations grow.\<close>

definition grows :: "system \<Rightarrow> system \<Rightarrow> bool" where
  "grows st st' \<longleftrightarrow>
     sh_version (shared_state st) \<le> sh_version (shared_state st') \<and> (\<exists>xs. history st' = history st @ xs) \<and>
     set (sh_accepted (shared_state st)) \<subseteq> set (sh_accepted (shared_state st'))"

lemma published_grows: "grows st st' \<Longrightarrow> published_since (history st) v c \<Longrightarrow> published_since (history st') v c"
  by (auto simp: grows_def intro: published_since_append)

lemma accepted_grows: "grows st st' \<Longrightarrow> x \<in> set (sh_accepted (shared_state st)) \<Longrightarrow> x \<in> set (sh_accepted (shared_state st'))"
  by (auto simp: grows_def)

lemma version_grows: "grows st st' \<Longrightarrow> v \<le> sh_version (shared_state st) \<Longrightarrow> v \<le> sh_version (shared_state st')"
  by (auto simp: grows_def)

lemma pc_ok_grows: "grows st st' \<Longrightarrow> pc_ok st server pc \<Longrightarrow> pc_ok st' server pc"
  unfolding pc_ok_def by (cases pc) (auto intro: version_grows, (meson published_grows accepted_grows)+)

lemma version_ok_grows:
  "grows st st' \<Longrightarrow> sh_versions (shared_state st') = sh_versions (shared_state st) \<Longrightarrow> version_ok st server \<Longrightarrow> version_ok st' server"
  unfolding version_ok_def Let_def by (metis version_grows published_grows accepted_grows)

lemma version_ok_set:
  assumes "grows st st'" "sh_versions (shared_state st') = int64_Set s v (sh_versions (shared_state st))"
    and "version_ok st server" "pc_ok st s (Record_version v)"
  shows "version_ok st' server"
proof (cases "server = s")
  case True
  then show ?thesis
    using assms(1,2,4) version_grows [OF assms(1)] published_grows [OF assms(1)] accepted_grows [OF assms(1)]
    by (auto simp: version_ok_def pc_ok_def int64_map.get_set published_since_def Let_def) blast+
next
  case False
  then have "int64_Get (sh_versions (shared_state st')) server = int64_Get (sh_versions (shared_state st)) server"
    using assms(2) by (simp add: int64_map.get_set)
  then show ?thesis
    using assms(3) version_grows [OF assms(1)] published_grows [OF assms(1)] accepted_grows [OF assms(1)]
    unfolding version_ok_def Let_def by metis
qed

text \<open>A step of a goroutine: the shared state grows, and what is known of the goroutine follows.\<close>

lemma worker_step_grows:
  assumes "worker_step res server (pc, shared_state st) = (pc', sh')"
  shows "grows st (st\<lparr>shared_state := sh', workers := ws\<rparr>)" "sh_json sh' = sh_json (shared_state st)"
    "sh_version sh' = sh_version (shared_state st)"
  using assms by (cases pc; auto simp: grows_def accept_config_def split: post_result.splits)+

lemma worker_step_ok:
  assumes inv: "system_inv st" and pc: "pc_ok st server pc"
    and step: "worker_step res server (pc, shared_state st) = (pc', sh')"
  shows "pc_ok (st\<lparr>shared_state := sh', workers := ws\<rparr>) server pc'"
    and "version_ok (st\<lparr>shared_state := sh', workers := ws\<rparr>) s"
proof -
  let ?st' = "st\<lparr>shared_state := sh', workers := ws\<rparr>"
  note g = worker_step_grows(1) [OF step, of ws]
  have "0 \<le> int64_Get (sh_versions (shared_state st)) server"
    using inv by (auto simp: system_inv_def version_ok_def Let_def)
  moreover have "published_since (history st) v (sh_json (shared_state st))" if v: "0 < v" "v \<le> sh_version (shared_state st)" for v
  proof -
    have len: "nat v \<le> length (history st)" using inv v by (auto simp: system_inv_def nat_mono trans_le_add1)
    then have "history st \<noteq> []" using v by auto
    then show ?thesis
      using inv v len by (auto simp: published_since_def system_inv_def last_conv_nth)
  qed
  ultimately show "pc_ok ?st' server pc'"
    using pc step by (cases pc) (auto simp: pc_ok_def accept_config_def split: post_result.splits if_splits)
  have ok: "version_ok st s" using inv by (simp add: system_inv_def)
  show "version_ok ?st' s"
  proof (cases "sh_versions sh' = sh_versions (shared_state st)")
    case True
    then show ?thesis using version_ok_grows [OF g _ ok] by simp
  next
    case False
    then obtain v where "pc = Record_version v" "sh_versions sh' = int64_Set server v (sh_versions (shared_state st))"
      using step by (cases pc) (auto simp: accept_config_def split: post_result.splits)
    then show ?thesis using version_ok_set [OF g _ ok] pc by simp
  qed
qed

lemma act_inv: "system_inv st \<Longrightarrow> system_inv (act a st)"
proof (induction a st rule: act.induct)
  case (1 c st)
  let ?st' = "st\<lparr>shared_state := (shared_state st)\<lparr>sh_json := c\<rparr>, publishing := True, history := history st @ [c]\<rparr>"
  have "grows st ?st'" by (simp add: grows_def)
  then show ?case
    using 1 pc_ok_grows [of st ?st'] version_ok_grows [of st ?st'] by (auto simp: system_inv_def)
next
  case (2 st)
  let ?st' = "st\<lparr>shared_state := (shared_state st)\<lparr>sh_version := sh_version (shared_state st) + 1\<rparr>, publishing := False\<rparr>"
  have "grows st ?st'" by (simp add: grows_def)
  then show ?case
    using 2 pc_ok_grows [of st ?st'] version_ok_grows [of st ?st'] by (auto simp: system_inv_def nat_add_distrib)
next
  case (3 server st)
  let ?st' = "st\<lparr>workers := workers st @ [(server, Check_flag)]\<rparr>"
  have "grows st ?st'" by (simp add: grows_def)
  moreover have "pc_ok ?st' server Check_flag" by (simp add: pc_ok_def)
  ultimately show ?case
    using 3 pc_ok_grows [of st ?st'] version_ok_grows [of st ?st'] by (auto simp: system_inv_def)
next
  case (4 i res st)
  show ?case
  proof (cases "i < length (workers st)")
    case True
    obtain server pc where w: "workers st ! i = (server, pc)" by fastforce
    obtain pc' sh' where step: "worker_step res server (pc, shared_state st) = (pc', sh')" by fastforce
    let ?st' = "st\<lparr>shared_state := sh', workers := (workers st)[i := (server, pc')]\<rparr>"
    have pc: "pc_ok st server pc" using 4 nth_mem [OF True] w by (auto simp: system_inv_def)
    note g = worker_step_grows(1) [OF step, of "(workers st)[i := (server, pc')]"] worker_step_grows(2,3) [OF step]
    have "\<forall>x \<in> set (workers ?st'). pc_ok ?st' (fst x) (snd x)"
      using 4 pc_ok_grows [OF g(1)] worker_step_ok(1) [OF 4 pc step]
      by (auto simp: system_inv_def dest!: set_update_subset_insert [THEN subsetD])
    moreover have "\<forall>s. version_ok ?st' s" using worker_step_ok(2) [OF 4 pc step] by blast
    ultimately have "system_inv ?st'" using 4 g(2,3) by (simp add: system_inv_def)
    then show ?thesis using True w step by simp
  qed (use 4 in simp)
qed

lemma reachable_inv: "reachable st \<Longrightarrow> system_inv st"
  by (induction rule: reachable.induct) (simp_all add: system_inv_start act_inv)

section \<open>A goroutine that runs alone\<close>

text \<open>Without interference the steps of a goroutine are the function \<open>updateServer\<close>.\<close>

definition shared_of :: "DockerLoader \<Rightarrow> (string \<rightharpoonup> string) \<Rightarrow> (string \<times> string) list \<Rightarrow> shared" where
  "shared_of dl runs acc =
     \<lparr>sh_version = lastVersion dl, sh_json = lastJSONConfig dl, sh_versions = serversVersions dl,
      sh_updating = serversUpdating dl, sh_runs = runs, sh_accepted = acc\<rparr>"

definition run_alone :: "post_result \<Rightarrow> string \<Rightarrow> shared \<Rightarrow> worker_pc \<times> shared" where
  "run_alone res server sh = (worker_step res server ^^ 8) (Check_flag, sh)"

lemma run_alone_updateServer:
  assumes "send_config js post (dl_options dl) (lastJSONConfig dl) server w = (ok, w')"
    and "ok \<longleftrightarrow> res = Accepted"
  shows "\<exists>runs' acc'. run_alone res server (shared_of dl runs acc) =
    (Finished, shared_of (fst (updateServer js post server (dl, w))) runs' acc')"
  using assms
  by (auto simp: run_alone_def eval_nat_numeral updateServer_def shared_of_def Let_def accept_config_def
      split: post_result.split bool.split)

end
