(* ===== verification/RuneRegex.thy ===== *)
theory RuneRegex
  imports GoStrings
begin

text \<open>
  Regular expressions over runes, for the searches of \<open>docker/utils.go\<close>. A text is the list of its runes,
  each with its bytes. As in package \<open>regexp\<close>, a match is leftmost-first: the search tries the
  positions from left to right, and a repetition tries the longest run first. The empty-width
  assertions look at the rune before and the rune after a position. There is one capturing group.
\<close>

section \<open>Matching\<close>

type_synonym chunk = "rune \<times> string"

datatype rx =
  Rune "rune \<Rightarrow> bool"
| Star "rune \<Rightarrow> bool"
| Times nat "rune \<Rightarrow> bool"
| Group rx
| Seq rx rx
| BeginLine
| WordBoundary

definition is_word :: "rune \<Rightarrow> bool" where
  "is_word r \<longleftrightarrow> 48 \<le> r \<and> r \<le> 57 \<or> 65 \<le> r \<and> r \<le> 90 \<or> 97 \<le> r \<and> r \<le> 122 \<or> r = 95"

definition word_at :: "rune option \<Rightarrow> bool" where
  "word_at p = (case p of None \<Rightarrow> False | Some r \<Rightarrow> is_word r)"

definition first_rune :: "chunk list \<Rightarrow> rune option" where
  "first_rune cs = (case cs of [] \<Rightarrow> None | c # _ \<Rightarrow> Some (fst c))"

definition last_rune :: "rune option \<Rightarrow> chunk list \<Rightarrow> rune option" where
  "last_rune p ws = (if ws = [] then p else Some (fst (last ws)))"

definition text_of :: "chunk list \<Rightarrow> string" where
  "text_of ws = concat (map snd ws)"

text \<open>The continuation gets what was matched, the text after it, and the group.\<close>

type_synonym 'r cont = "chunk list \<Rightarrow> chunk list \<Rightarrow> string \<Rightarrow> 'r option"

fun star :: "(rune \<Rightarrow> bool) \<Rightarrow> chunk list \<Rightarrow> chunk list \<Rightarrow> (chunk list \<Rightarrow> chunk list \<Rightarrow> 'r option) \<Rightarrow> 'r option" where
  "star P taken [] k = k taken []"
| "star P taken (c # cs) k =
     (if P (fst c)
      then (case star P (taken @ [c]) cs k of Some r \<Rightarrow> Some r | None \<Rightarrow> k taken (c # cs))
      else k taken (c # cs))"

fun run :: "rx \<Rightarrow> rune option \<Rightarrow> chunk list \<Rightarrow> string \<Rightarrow> 'r cont \<Rightarrow> 'r option" where
  "run (Rune P) p cs g k = (case cs of [] \<Rightarrow> None | c # cs' \<Rightarrow> if P (fst c) then k [c] cs' g else None)"
| "run (Star P) p cs g k = star P [] cs (\<lambda>ws rest. k ws rest g)"
| "run (Times n P) p cs g k =
     (if n \<le> length cs \<and> list_all (\<lambda>c. P (fst c)) (take n cs) then k (take n cs) (drop n cs) g else None)"
| "run (Group r) p cs g k = run r p cs g (\<lambda>ws rest g'. k ws rest (text_of ws))"
| "run (Seq r s) p cs g k =
     run r p cs g (\<lambda>ws rest g'. run s (last_rune p ws) rest g' (\<lambda>vs rest' g''. k (ws @ vs) rest' g''))"
| "run BeginLine p cs g k = (if p = None \<or> p = Some 10 then k [] cs g else None)"
| "run WordBoundary p cs g k = (if word_at p \<noteq> word_at (first_rune cs) then k [] cs g else None)"

text \<open>The group of the leftmost match.\<close>

fun search :: "rx \<Rightarrow> rune option \<Rightarrow> chunk list \<Rightarrow> string option" where
  "search r p [] = run r p [] [] (\<lambda>ws rest g. Some g)"
| "search r p (c # cs) =
     (case run r p (c # cs) [] (\<lambda>ws rest g. Some g) of
        Some g \<Rightarrow> Some g
      | None \<Rightarrow> search r (Some (fst c)) cs)"

section \<open>What is matched\<close>

text \<open>The declarative reading: an expression matches \<open>ws\<close> between the rune before and the text after it.\<close>

fun matches :: "rx \<Rightarrow> rune option \<Rightarrow> chunk list \<Rightarrow> chunk list \<Rightarrow> string \<Rightarrow> string \<Rightarrow> bool" where
  "matches (Rune P) p ws rest g g' \<longleftrightarrow> (\<exists>c. ws = [c] \<and> P (fst c)) \<and> g' = g"
| "matches (Star P) p ws rest g g' \<longleftrightarrow> list_all (\<lambda>c. P (fst c)) ws \<and> g' = g"
| "matches (Times n P) p ws rest g g' \<longleftrightarrow> length ws = n \<and> list_all (\<lambda>c. P (fst c)) ws \<and> g' = g"
| "matches (Group r) p ws rest g g' \<longleftrightarrow> (\<exists>h. matches r p ws rest g h) \<and> g' = text_of ws"
| "matches (Seq r s) p ws rest g g' \<longleftrightarrow>
     (\<exists>us vs h. ws = us @ vs \<and> matches r p us (vs @ rest) g h \<and> matches s (last_rune p us) vs rest h g')"
| "matches BeginLine p ws rest g g' \<longleftrightarrow> (p = None \<or> p = Some 10) \<and> ws = [] \<and> g' = g"
| "matches WordBoundary p ws rest g g' \<longleftrightarrow> word_at p \<noteq> word_at (first_rune rest) \<and> ws = [] \<and> g' = g"

lemma star_sound:
  "star P t cs k = Some x \<Longrightarrow> \<exists>ws rest. cs = ws @ rest \<and> list_all (\<lambda>c. P (fst c)) ws \<and> k (t @ ws) rest = Some x"
proof (induction P t cs k rule: star.induct)
  case (2 P t c cs k)
  show ?case
  proof (cases "P (fst c) \<and> star P (t @ [c]) cs k \<noteq> None")
    case True
    with 2 obtain ws rest where "cs = ws @ rest" "list_all (\<lambda>c. P (fst c)) ws" "k ((t @ [c]) @ ws) rest = Some x" by auto
    with True show ?thesis by (intro exI [of _ "c # ws"] exI [of _ rest]) simp
  next
    case False
    with 2 have "k t (c # cs) = Some x" by (auto split: if_splits option.splits)
    then show ?thesis by (intro exI [of _ "[]"] exI [of _ "c # cs"]) simp
  qed
qed simp

lemma star_complete:
  "cs = ws @ rest \<Longrightarrow> list_all (\<lambda>c. P (fst c)) ws \<Longrightarrow> k (t @ ws) rest \<noteq> None \<Longrightarrow> star P t cs k \<noteq> None"
proof (induction ws arbitrary: t cs)
  case Nil
  then show ?case by (cases cs) (auto split: option.splits)
next
  case (Cons w ws)
  then have "star P (t @ [w]) (ws @ rest) k \<noteq> None" by simp
  with Cons.prems show ?case by (auto split: option.splits)
qed

lemma run_sound:
  "run r p cs g k = Some x \<Longrightarrow> \<exists>ws rest g'. cs = ws @ rest \<and> matches r p ws rest g g' \<and> k ws rest g' = Some x"
proof (induction r p cs g k rule: run.induct)
  case (1 P p cs g k)
  then obtain c cs' where "cs = [c] @ cs'" "P (fst c)" "k [c] cs' g = Some x" by (auto split: list.splits if_splits)
  then show ?case by (intro exI [of _ "[c]"] exI [of _ cs'] exI [of _ g]) simp
next
  case (2 P p cs g k)
  then show ?case using star_sound [of P "[]" cs "\<lambda>ws rest. k ws rest g" x] by auto
next
  case (3 n P p cs g k)
  then show ?case by (intro exI [of _ "take n cs"] exI [of _ "drop n cs"]) (auto split: if_splits)
next
  case (4 r p cs g k)
  from 4(1) [OF 4(2) [unfolded run.simps]] show ?case by fastforce
next
  case (5 r s p cs g k)
  from 5(2) [OF 5(3) [unfolded run.simps]] obtain us rest h where
    u: "cs = us @ rest" "matches r p us rest g h"
      "run s (last_rune p us) rest h (\<lambda>vs rest' g''. k (us @ vs) rest' g'') = Some x" by blast
  from 5(1) [OF u(3)] obtain vs rest' g' where
    "rest = vs @ rest'" "matches s (last_rune p us) vs rest' h g'" "k (us @ vs) rest' g' = Some x" by blast
  with u(1,2) show ?case by (intro exI [of _ "us @ vs"] exI [of _ rest'] exI [of _ g']) auto
qed (auto split: list.splits if_splits)

lemma run_complete:
  "matches r p ws rest g g' \<Longrightarrow> k ws rest g' \<noteq> None \<Longrightarrow> run r p (ws @ rest) g k \<noteq> None"
proof (induction r arbitrary: p ws rest g g' k)
  case (Star P)
  then show ?case using star_complete [of "ws @ rest" ws rest P "\<lambda>ws rest. k ws rest g" "[]"] by simp
next
  case (Group r)
  then obtain h where "matches r p ws rest g h" by auto
  from Group.IH [OF this, of "\<lambda>ws rest g'. k ws rest (text_of ws)"] Group.prems show ?case by simp
next
  case (Seq r s)
  then obtain us vs h where u: "ws = us @ vs" "matches r p us (vs @ rest) g h" "matches s (last_rune p us) vs rest h g'"
    by auto
  have "run s (last_rune p us) (vs @ rest) h (\<lambda>vs rest' g''. k (us @ vs) rest' g'') \<noteq> None"
    by (rule Seq.IH(2) [OF u(3)]) (use Seq.prems(2) u(1) in simp)
  from Seq.IH(1) [OF u(2), of "\<lambda>ws rest g'. run s (last_rune p ws) rest g' (\<lambda>vs rest' g''. k (ws @ vs) rest' g'')"] this
  show ?case by (simp add: u(1))
qed auto

text \<open>A search finds something exactly when there is a match somewhere, and what it finds is the group of
  a match.\<close>

lemma search_sound:
  "search r p cs = Some g \<Longrightarrow>
    \<exists>us ws rest. cs = us @ ws @ rest \<and> matches r (last_rune p us) ws rest [] g"
proof (induction r p cs rule: search.induct)
  case (1 r p)
  then show ?case using run_sound [of r p "[]" "[]" "\<lambda>ws rest g. Some g" g] by (auto simp: last_rune_def)
next
  case (2 r p c cs)
  show ?case
  proof (cases "run r p (c # cs) [] (\<lambda>ws rest g. Some g)")
    case None
    with 2 obtain us ws rest where "cs = us @ ws @ rest" "matches r (last_rune (Some (fst c)) us) ws rest [] g" by auto
    then show ?thesis
      by (intro exI [of _ "c # us"] exI [of _ ws] exI [of _ rest]) (auto simp: last_rune_def split: if_splits)
  next
    case (Some h)
    with 2 have "h = g" by simp
    with run_sound [OF Some] obtain ws rest where "c # cs = ws @ rest" "matches r p ws rest [] g" by auto
    then show ?thesis by (intro exI [of _ "[]"] exI [of _ ws] exI [of _ rest]) (simp add: last_rune_def)
  qed
qed

lemma search_complete:
  "matches r (last_rune p us) ws rest [] g \<Longrightarrow> search r p (us @ ws @ rest) \<noteq> None"
proof (induction us arbitrary: p)
  case Nil
  then have r: "run r p (ws @ rest) [] (\<lambda>ws rest g. Some g) \<noteq> None"
    by (intro run_complete) (simp_all add: last_rune_def)
  then show ?case by (cases "ws @ rest") (auto split: option.splits)
next
  case (Cons u us)
  then have "search r (Some (fst u)) (us @ ws @ rest) \<noteq> None" by (simp add: last_rune_def split: if_splits)
  then show ?case by (auto split: option.splits)
qed

end
