(* ===== verification/ContainerID.thy ===== *)
theory ContainerID
  imports RuneRegex
begin

text \<open>
  The ID of the container the program runs in (\<open>docker/utils.go\<close>). The operating system, reading a file
  and the host name are parameters.
\<close>

section \<open>The searches\<close>

definition alnum :: "rune \<Rightarrow> bool" where
  "alnum r \<longleftrightarrow> 48 \<le> r \<and> r \<le> 57 \<or> 65 \<le> r \<and> r \<le> 90 \<or> 97 \<le> r \<and> r \<le> 122"

text \<open>With the flag \<open>i\<close> the class also has the runes that fold to an ASCII letter: U+017F to \<open>s\<close> and
  U+212A to \<open>k\<close>.\<close>

definition alnum_fold :: "rune \<Rightarrow> bool" where
  "alnum_fold r \<longleftrightarrow> alnum r \<or> r = 383 \<or> r = 8490"

fun literal :: "string \<Rightarrow> rx" where
  "literal [] = Times 0 alnum"
| "literal (c # cs) = Seq (Rune (\<lambda>r. r = of_char c)) (literal cs)"

definition mountinfo_regex :: rx where
  "mountinfo_regex = Seq (literal ''containers/'') (Seq (Group (Times 64 alnum)) (literal ''/''))"

definition cgroup_regex :: rx where
  "cgroup_regex =
     Seq BeginLine (Seq (Star (\<lambda>r. r \<noteq> 58)) (Seq (Rune (\<lambda>r. r = 58)) (Seq (Star (\<lambda>r. r \<noteq> 58)) (Seq (Rune (\<lambda>r. r = 58))
       (Seq (Star (\<lambda>r. r \<noteq> 10)) (Seq WordBoundary (Seq (Group (Times 64 alnum_fold)) WordBoundary)))))))"

definition last_group :: "string option \<Rightarrow> string" where
  "last_group m = (case m of None \<Rightarrow> [] | Some g \<Rightarrow> g)"

definition extractContainerIDFromMountInfo :: "string \<Rightarrow> string" where
  "extractContainerIDFromMountInfo cgroups = last_group (search mountinfo_regex None (rune_chunks cgroups))"

definition extractContainerIDFromCGroups :: "string \<Rightarrow> string" where
  "extractContainerIDFromCGroups cgroups = last_group (search cgroup_regex None (rune_chunks cgroups))"

definition getCurrentContainerIDFromMountInfo :: "(string \<Rightarrow> string result) \<Rightarrow> string result" where
  "getCurrentContainerIDFromMountInfo readFile =
     map_sum id extractContainerIDFromMountInfo (readFile ''/proc/self/mountinfo'')"

definition getCurrentContainerIDFromCGroup :: "(string \<Rightarrow> string result) \<Rightarrow> string result" where
  "getCurrentContainerIDFromCGroup readFile =
     map_sum id extractContainerIDFromCGroups (readFile ''/proc/self/cgroup'')"

text \<open>The next source is asked if there is no ID and no error so far.\<close>

definition if_empty :: "string result \<Rightarrow> string result \<Rightarrow> string result" where
  "if_empty r source = (case r of Inl err \<Rightarrow> Inl err | Inr containerID \<Rightarrow> if containerID = [] then source else Inr containerID)"

definition GetCurrentContainerID :: "string \<Rightarrow> (string \<Rightarrow> string result) \<Rightarrow> string result \<Rightarrow> string result" where
  "GetCurrentContainerID GOOS readFile hostname =
     if_empty
       (if GOOS = ''linux''
        then if_empty (getCurrentContainerIDFromCGroup readFile) (getCurrentContainerIDFromMountInfo readFile)
        else Inr [])
       hostname"

section \<open>Texts of ASCII characters\<close>

definition ascii :: "string \<Rightarrow> bool" where
  "ascii s \<longleftrightarrow> (\<forall>c \<in> set s. (of_char c :: nat) < 128)"

definition chunk_of :: "char \<Rightarrow> chunk" where
  "chunk_of c = (of_char c, [c])"

lemma ascii_simps [simp]: "ascii []" "ascii (c # s) \<longleftrightarrow> (of_char c :: nat) < 128 \<and> ascii s" "ascii (s @ t) \<longleftrightarrow> ascii s \<and> ascii t"
  by (auto simp: ascii_def)

lemma chunks_append: "ascii s \<Longrightarrow> rune_chunks (s @ t) = map chunk_of s @ rune_chunks t"
  by (induction s) (simp_all add: rune_chunks_ascii chunk_of_def del: rune_chunks.simps(2))

lemma text_of_chunks [simp]: "text_of (map chunk_of s) = s"
  by (induction s) (simp_all add: text_of_def chunk_of_def)

lemma fst_chunk_of [simp]: "fst (chunk_of c) = of_char c"
  by (simp add: chunk_of_def)

lemma of_char_eq_iff: "(of_char c :: nat) = of_char d \<longleftrightarrow> c = d"
  by (metis char_of_char)

section \<open>Longest runs\<close>

lemma star_none:
  "(\<And>a b. y = a @ b \<Longrightarrow> a \<noteq> [] \<Longrightarrow> \<forall>c \<in> set a. P (fst c) \<Longrightarrow> k (t @ a) b = None) \<Longrightarrow> star P t y k = k t y"
proof (induction y arbitrary: t)
  case (Cons c y)
  have "star P (t @ [c]) y k = None" if "P (fst c)"
  proof -
    have "star P (t @ [c]) y k = k (t @ [c]) y"
      by (rule Cons.IH) (use Cons.prems [of "c # _"] that in simp)
    then show ?thesis using Cons.prems [of "[c]" y] that by simp
  qed
  then show ?case by simp
qed simp

lemma star_longest:
  assumes "\<forall>c \<in> set x. P (fst c)" and "k (t @ x) y = Some r"
    and "\<And>a b. y = a @ b \<Longrightarrow> a \<noteq> [] \<Longrightarrow> \<forall>c \<in> set a. P (fst c) \<Longrightarrow> k (t @ x @ a) b = None"
  shows "star P t (x @ y) k = Some r"
  using assms
proof (induction x arbitrary: t)
  case Nil
  then show ?case using star_none [of y P k t] by simp
next
  case (Cons c x)
  have "star P (t @ [c]) (x @ y) k = Some r"
    by (rule Cons.IH) (use Cons.prems in simp_all)
  then show ?case using Cons.prems(1) by simp
qed

text \<open>A run that only its delimiter can follow.\<close>

lemma star_until:
  assumes "\<forall>c \<in> set x. P (fst c)" and "\<not> P (fst d)"
    and "\<And>ws c rest. P (fst c) \<Longrightarrow> k ws (c # rest) = None"
  shows "star P t (x @ d # y) k = k (t @ x) (d # y)"
  using assms(1)
proof (induction x arbitrary: t)
  case Nil
  then show ?case using assms(2) by simp
next
  case (Cons c x)
  then show ?case using assms(3) [of c t] by (simp split: option.split)
qed

lemma run_literal:
  "run (literal s) p cs g k =
    (if map fst (take (length s) cs) = map of_char s then k (take (length s) cs) (drop (length s) cs) g else None)"
proof (induction s arbitrary: p cs k)
  case (Cons c s)
  then show ?case by (cases cs) auto
qed simp

section \<open>The ID in the control groups\<close>

definition id_at :: "string cont \<Rightarrow> rune option \<Rightarrow> chunk list \<Rightarrow> chunk list \<Rightarrow> string option" where
  "id_at k p ws rest =
     (if word_at (last_rune p ws) \<noteq> word_at (first_rune rest) \<and> 64 \<le> length rest \<and>
         list_all (\<lambda>c. alnum_fold (fst c)) (take 64 rest) \<and>
         word_at (last_rune (last_rune p ws) (take 64 rest)) \<noteq> word_at (first_rune (drop 64 rest))
      then k (ws @ take 64 rest) (drop 64 rest) (text_of (take 64 rest)) else None)"

lemma last_rune_Nil [simp]: "last_rune p [] = p"
  by (simp add: last_rune_def)

lemma run_id:
  "run (Seq (Star (\<lambda>r. r \<noteq> 10)) (Seq WordBoundary (Seq (Group (Times 64 alnum_fold)) WordBoundary))) p cs g k =
   star (\<lambda>r. r \<noteq> 10) [] cs (id_at k p)"
proof -
  have "(\<lambda>ws rest. run (Seq WordBoundary (Seq (Group (Times 64 alnum_fold)) WordBoundary)) (last_rune p ws) rest g
      (\<lambda>vs rest'. k (ws @ vs) rest')) = id_at k p"
    by (rule ext)+ (simp add: id_at_def)
  then show ?thesis by simp
qed

lemma run_fields:
  assumes "\<forall>c \<in> set x. fst c \<noteq> 58" and "fst d = 58"
  shows "run (Seq (Star (\<lambda>r. r \<noteq> 58)) (Seq (Rune (\<lambda>r. r = 58)) r)) p (x @ d # y) g k =
    run r (Some 58) y g (\<lambda>ws rest g'. k (x @ d # ws) rest g')"
proof -
  let ?k = "\<lambda>ws rest. run (Seq (Rune (\<lambda>r. r = 58)) r) (last_rune p ws) rest g (\<lambda>vs rest' g'. k (ws @ vs) rest' g')"
  have "star (\<lambda>r. r \<noteq> 58) [] (x @ d # y) ?k = ?k ([] @ x) (d # y)"
    by (rule star_until) (use assms in auto)
  then show ?thesis using assms(2) by (simp add: last_rune_def)
qed


lemma first_rune_chunks: "first_rune (map chunk_of s @ cs) = (if s = [] then first_rune cs else Some (of_char (hd s)))"
  by (cases s) (simp_all add: first_rune_def)

lemma last_rune_chunks: "last_rune p (map chunk_of s) = (if s = [] then p else Some (of_char (last s)))"
  by (simp add: last_rune_def last_map)

lemma word_at_Some [simp]: "word_at (Some r) = is_word r" "\<not> word_at None"
  by (simp_all add: word_at_def)

lemma alnum_word: "alnum r \<Longrightarrow> is_word r"
  by (auto simp: alnum_def is_word_def)

text \<open>A word of 64 letters and digits, what may stand around it in a line, and what may stand behind the line.\<close>

definition is_id :: "string \<Rightarrow> bool" where
  "is_id s \<longleftrightarrow> length s = 64 \<and> (\<forall>c \<in> set s. alnum (of_char c))"

definition before_word :: "string \<Rightarrow> bool" where
  "before_word s \<longleftrightarrow> s = [] \<or> \<not> is_word (of_char (last s))"

definition after_word :: "string \<Rightarrow> bool" where
  "after_word s \<longleftrightarrow> s = [] \<or> \<not> is_word (of_char (hd s))"

lemma id_at_found:
  assumes "is_id i" and "before_word x" and "after_word y" and "cs = [] \<or> fst (hd cs) = 10" and "\<not> word_at p"
  shows "id_at k p (map chunk_of x) (map chunk_of i @ map chunk_of y @ cs) = k (map chunk_of (x @ i)) (map chunk_of y @ cs) i"
proof -
  have i: "i \<noteq> []" "length i = 64" "\<forall>c \<in> set i. alnum_fold (of_char c)" "\<forall>c \<in> set i. is_word (of_char c)"
    using assms(1) by (auto simp: is_id_def alnum_fold_def intro!: alnum_word)
  have t: "take 64 (map chunk_of i @ map chunk_of y @ cs) = map chunk_of i"
    "drop 64 (map chunk_of i @ map chunk_of y @ cs) = map chunk_of y @ cs" using i(2) by simp_all
  have "first_rune cs = None \<or> first_rune cs = Some 10" using assms(4) by (cases cs) (auto simp: first_rune_def)
  then have "\<not> word_at (first_rune (map chunk_of y @ cs))"
    using assms(3) by (auto simp: first_rune_chunks after_word_def is_word_def)
  moreover have "\<not> word_at (last_rune p (map chunk_of x))"
    using assms(2,5) by (auto simp: last_rune_chunks before_word_def)
  moreover have "is_word (of_char (hd i))" "is_word (of_char (last i))" using i(1,4) by simp_all
  ultimately show ?thesis
    using i by (simp add: id_at_def t first_rune_chunks last_rune_chunks list_all_iff)
qed

text \<open>No later start in the line is possible: the boundary before it is missing, or the line is too short.\<close>

lemma id_at_inside:
  assumes "is_id i" and e: "map chunk_of i @ rest = a @ b" and a: "a \<noteq> []" "length a < 64"
  shows "id_at k p (ws @ a) b = None"
proof -
  have i: "length i = 64" "\<forall>c \<in> set i. is_word (of_char c)" using assms(1) by (auto simp: is_id_def intro: alnum_word)
  have "take (length a) (map chunk_of i @ rest) = a" using e by simp
  then have a': "a = map chunk_of (take (length a) i)" using a(2) i(1) by (simp add: take_map)
  have "drop (length a) (map chunk_of i @ rest) = b" using e by simp
  then have b': "b = map chunk_of (drop (length a) i) @ rest" using a(2) i(1) by (simp add: drop_map)
  have "take (length a) i \<noteq> []" "drop (length a) i \<noteq> []" using a(2) i(1) a(1) by auto
  moreover from this have "last (take (length a) i) \<in> set i" "hd (drop (length a) i) \<in> set i"
    by (metis last_in_set in_set_takeD, metis hd_in_set in_set_dropD)
  moreover have "last_rune p (ws @ a) = Some (fst (last a))" using a(1) by (simp add: last_rune_def)
  moreover have "last a = chunk_of (last (take (length a) i))"
    using a' \<open>take (length a) i \<noteq> []\<close> by (metis last_map)
  ultimately have "word_at (last_rune p (ws @ a))" "word_at (first_rune b)"
    using i(2) b' by (simp_all add: first_rune_chunks)
  then show ?thesis by (simp add: id_at_def)
qed

lemma id_at_behind:
  assumes "is_id i" and "length y < 64" and "cs = [] \<or> fst (hd cs) = 10"
    and e: "map chunk_of i @ map chunk_of y @ cs = a @ b" and a: "64 \<le> length a" "\<forall>c \<in> set a. fst c \<noteq> 10"
  shows "id_at k p (ws @ a) b = None"
proof -
  have i: "length i = 64" using assms(1) by (simp add: is_id_def)
  let ?y = "map chunk_of y @ cs"
  have "drop 64 a @ b = drop 64 (map chunk_of i @ ?y)" unfolding e using a(1) by simp
  then have y: "?y = drop 64 a @ b" using i by simp
  have no10: "10 \<notin> fst ` set (drop 64 a)" using a(2) in_set_dropD [of _ 64 a] by force
  have "length (drop 64 a) \<le> length y"
  proof (rule ccontr)
    assume long: "\<not> ?thesis"
    have "drop (length y) (map chunk_of y @ cs) = drop (length y) (drop 64 a @ b)" using y by simp
    then have "cs = drop (length y) (drop 64 a) @ b" using long by simp
    with long have "hd cs = hd (drop (length y) (drop 64 a))" "drop (length y) (drop 64 a) \<noteq> []" "cs \<noteq> []" by auto
    then have "hd cs \<in> set (drop 64 a)" by (metis hd_in_set in_set_dropD)
    with no10 assms(3) \<open>cs \<noteq> []\<close> show False by force
  qed
  then have b: "b = map chunk_of (drop (length a - 64) y) @ cs"
    using y by (metis (no_types, lifting) append_eq_append_conv_if append_eq_conv_conj diff_is_0_eq drop0 drop_append drop_map length_drop length_map)
  have "\<not> (64 \<le> length b \<and> list_all (\<lambda>c. alnum_fold (fst c)) (take 64 b))"
  proof
    assume h: "64 \<le> length b \<and> list_all (\<lambda>c. alnum_fold (fst c)) (take 64 b)"
    let ?n = "length (drop (length a - 64) y)"
    have n: "?n < 64" using assms(2) by simp
    with h b have "cs \<noteq> []" by auto
    then have "hd cs \<in> set (take 64 b)" using n b by (cases cs) (auto simp: take_Cons')
    then have "alnum_fold (fst (hd cs))" using h by (auto simp: list_all_iff)
    then show False using assms(3) \<open>cs \<noteq> []\<close> by (simp add: alnum_fold_def alnum_def)
  qed
  then show ?thesis by (auto simp: id_at_def)
qed

lemma id_at_later:
  assumes "is_id i" and "length y < 64" and "cs = [] \<or> fst (hd cs) = 10"
    and "map chunk_of i @ map chunk_of y @ cs = a @ b" and "a \<noteq> []" "\<forall>c \<in> set a. fst c \<noteq> 10"
  shows "id_at k p (ws @ a) b = None"
  using id_at_inside [OF assms(1,4,5)] id_at_behind [OF assms(1-4) _ assms(6)] by (cases "length a < 64") simp_all

lemma cgroup_line:
  assumes "is_id i" and "before_word x" and "after_word y" and "length y < 64" and "more = [] \<or> hd more = CHR 0x0A"
    and "CHR '':'' \<notin> set h" and "CHR '':'' \<notin> set c" and "CHR 0x0A \<notin> set x"
    and "ascii (h @ c @ x @ i @ y)"
  shows "extractContainerIDFromCGroups (h @ '':'' @ c @ '':'' @ x @ i @ y @ more) = i"
proof -
  let ?s = "h @ '':'' @ c @ '':'' @ x @ i @ y @ more" and ?cs = "rune_chunks more"
  have cs: "?cs = [] \<or> fst (hd ?cs) = 10"
    using assms(5) by (cases more) (auto simp: rune_chunks_ascii simp del: rune_chunks.simps(2))
  have chunks: "rune_chunks ?s =
      map chunk_of h @ chunk_of CHR '':'' # map chunk_of c @ chunk_of CHR '':'' # map chunk_of x @
      map chunk_of i @ map chunk_of y @ ?cs"
    using chunks_append [of "h @ '':'' @ c @ '':'' @ x @ i @ y" more] assms(9) by simp
  have colon: "\<forall>d \<in> set (map chunk_of h). fst d \<noteq> 58" "\<forall>d \<in> set (map chunk_of c). fst d \<noteq> 58" "fst (chunk_of CHR '':'') = 58"
    using assms(6,7) of_char_eq_iff [of _ "CHR '':''"] by auto
  have line: "\<forall>d \<in> set (map chunk_of x). fst d \<noteq> 10"
    using assms(8) of_char_eq_iff [of _ "CHR 0x0A"] by auto
  have "star (\<lambda>r. r \<noteq> 10) [] (map chunk_of x @ map chunk_of i @ map chunk_of y @ ?cs) (id_at (\<lambda>ws rest g. Some g) (Some 58)) = Some i"
  proof (rule star_longest [OF line])
    show "id_at (\<lambda>ws rest g. Some g) (Some 58) ([] @ map chunk_of x) (map chunk_of i @ map chunk_of y @ ?cs) = Some i"
      using id_at_found [OF assms(1-3) cs, of "Some 58"] by (simp add: is_word_def)
  next
    fix a b assume "map chunk_of i @ map chunk_of y @ ?cs = a @ b" "a \<noteq> []" "\<forall>c \<in> set a. fst c \<noteq> 10"
    then show "id_at (\<lambda>ws rest g. Some g) (Some 58) ([] @ map chunk_of x @ a) b = None"
      using id_at_later [OF assms(1,4) cs] by simp
  qed
  then have "run cgroup_regex None (rune_chunks ?s) [] (\<lambda>ws rest g. Some g) = Some i"
    unfolding cgroup_regex_def chunks run.simps(5) [of BeginLine] by (simp add: run_fields [OF colon(1,3)] run_fields [OF colon(2,3)] run_id del: run.simps(2,5))
  then have "search cgroup_regex None (rune_chunks ?s) = Some i" by (cases "rune_chunks ?s") simp_all
  then show ?thesis by (simp add: extractContainerIDFromCGroups_def last_group_def)
qed


section \<open>The ID in the mount table\<close>

lemma run_mountinfo:
  "run mountinfo_regex p cs [] (\<lambda>ws rest g. Some g) =
    (if map fst (take 11 cs) = map of_char ''containers/'' then
       (if 64 \<le> length (drop 11 cs) \<and> list_all (\<lambda>c. alnum (fst c)) (take 64 (drop 11 cs)) then
          (if map fst (take 1 (drop 64 (drop 11 cs))) = map of_char ''/''
           then Some (text_of (take 64 (drop 11 cs))) else None)
        else None)
     else None)"
proof -
  have l: "length ''containers/'' = 11" "length ''/'' = 1" by simp_all
  show ?thesis unfolding mountinfo_regex_def run.simps(3-5) run_literal l ..
qed

lemma take_map_append: "n \<le> length s \<Longrightarrow> take n (map f s @ t) = map f (take n s)"
  by (simp add: take_map)

text \<open>\<open>containers/\<close> does not overlap itself.\<close>

lemma no_overlap:
  assumes "\<forall>a b. x \<noteq> a @ ''containers/'' @ b" and "x = x1 @ x2" and "x2 \<noteq> []"
  shows "take 11 (x2 @ ''containers/'' @ y) \<noteq> ''containers/''"
proof
  assume h: "take 11 (x2 @ ''containers/'' @ y) = ''containers/''"
  show False
  proof (cases "11 \<le> length x2")
    case True
    then have "take 11 x2 = ''containers/''" using h True by simp
    then have "x2 = ''containers/'' @ drop 11 x2" using append_take_drop_id [of 11 x2] by simp
    then have "x = x1 @ ''containers/'' @ drop 11 x2" using assms(2) by simp
    then show False using assms(1) by blast
  next
    case False
    then have "''containers/'' ! length x2 = (take 11 (x2 @ ''containers/'' @ y)) ! length x2" using h by simp
    also have "\<dots> = CHR ''c''" using False by (simp add: nth_append)
    finally have "''containers/'' ! length x2 = CHR ''c''" .
    moreover have "list_all (\<lambda>n. ''containers/'' ! n \<noteq> CHR ''c'') [1..<11]" by code_simp
    moreover have "length x2 \<in> set [1..<11]" using False assms(3) by (cases x2) auto
    ultimately show False unfolding list_all_iff by blast
  qed
qed

lemma mountinfo_found:
  assumes "is_id i" and "\<forall>a b. x \<noteq> a @ ''containers/'' @ b" and "ascii (x @ i)"
  shows "extractContainerIDFromMountInfo (x @ ''containers/'' @ i @ ''/'' @ more) = i"
proof -
  let ?y = "map chunk_of (''containers/'' @ i @ ''/'') @ rune_chunks more"
  have len: "length i = 64" "\<forall>c \<in> set i. alnum (of_char c)" using assms(1) by (simp_all add: is_id_def)
  have here: "search mountinfo_regex p ?y = Some i" for p
  proof -
    let ?z = "map chunk_of i @ chunk_of CHR ''/'' # rune_chunks more"
    have d: "drop 11 ?y = ?z" by simp
    have z: "take 64 ?z = map chunk_of i" "drop 64 ?z = chunk_of CHR ''/'' # rune_chunks more" "64 \<le> length ?z"
      using len(1) by simp_all
    have t: "map fst (take 11 ?y) = map of_char ''containers/''" by simp
    have "run mountinfo_regex p ?y [] (\<lambda>ws rest g. Some g) = Some i"
      unfolding run_mountinfo d z t using z(3) len(2) by (simp add: list_all_iff)
    then show ?thesis by (cases ?y) simp_all
  qed
  have "search mountinfo_regex p (map chunk_of x2 @ ?y) = Some i" if "x = x1 @ x2" for p x1 x2
    using that
  proof (induction x2 arbitrary: p x1)
    case Nil
    then show ?case using here by simp
  next
    case (Cons c x2)
    let ?z = "map chunk_of (c # x2) @ ?y" and ?s = "(c # x2) @ ''containers/'' @ i @ ''/''"
    have z: "?z = map chunk_of ?s @ rune_chunks more" by simp
    have front: "take 11 (map chunk_of ?s @ rune_chunks more) = map chunk_of (take 11 ?s)"
      by (rule take_map_append) simp
    have "take 11 ((c # x2) @ ''containers/'' @ i @ ''/'') \<noteq> ''containers/''"
      using no_overlap [OF assms(2) Cons.prems] by simp
    moreover have "map fst (take 11 ?z) = map of_char (take 11 ?s)"
      unfolding z front by (simp only: map_map comp_def fst_chunk_of)
    ultimately have "map fst (take 11 ?z) \<noteq> map of_char ''containers/''"
      using inj_map_eq_map [of "of_char :: char \<Rightarrow> nat"] by (metis of_char_eq_iff injI)
    then have "run mountinfo_regex p ?z [] (\<lambda>ws rest g. Some g) = None" unfolding run_mountinfo by simp
    moreover have "search mountinfo_regex (Some (of_char c)) (map chunk_of x2 @ ?y) = Some i"
      using Cons.IH [of "x1 @ [c]"] Cons.prems by simp
    ultimately show ?case by simp
  qed
  from this [of "[]" x None] have "search mountinfo_regex None (map chunk_of x @ ?y) = Some i" by simp
  moreover have "rune_chunks (x @ ''containers/'' @ i @ ''/'' @ more) = map chunk_of x @ ?y"
    using chunks_append [of "x @ ''containers/'' @ i @ ''/''" more] assms(3) by simp
  ultimately show ?thesis by (simp add: extractContainerIDFromMountInfo_def last_group_def)
qed

section \<open>What is found is an ID\<close>

lemma short_no_id: "length s < 64 \<Longrightarrow> extractContainerIDFromCGroups s = []"
proof (rule ccontr)
  assume s: "length s < 64" and "extractContainerIDFromCGroups s \<noteq> []"
  then obtain g where "search cgroup_regex None (rune_chunks s) = Some g"
    by (auto simp: extractContainerIDFromCGroups_def last_group_def split: option.splits)
  from search_sound [OF this] obtain us ws rest where
    "rune_chunks s = us @ ws @ rest" "matches cgroup_regex (last_rune None us) ws rest [] g" by blast
  then have "64 \<le> length (rune_chunks s)" unfolding cgroup_regex_def by auto
  with s length_chunks [of s] show False by simp
qed

end
