(* ===== verification/GenMocks.thy ===== *)
theory GenMocks
  imports GoStrings "HOL-Library.Sublist"
begin

text \<open>
  The tool \<open>tools/gen-opnsense-mocks/main.go\<close>, which writes the Go types of the OPNsense API. It first
  checks that the two XML models still have the fields the types have. Files are parameters.
\<close>

section \<open>What is checked\<close>

definition unboundXML :: string where
  "unboundXML = ''../reference/opnsense-core/src/opnsense/mvc/app/models/OPNsense/Unbound/Unbound.xml''"

definition dnatXML :: string where
  "dnatXML = ''../reference/opnsense-core/src/opnsense/mvc/app/models/OPNsense/Firewall/DNat.xml''"

definition outputFile :: string where
  "outputFile = ''opnsense_types_gen.go''"

definition unboundHostFields :: "string list" where
  "unboundHostFields = [''enabled'', ''hostname'', ''domain'', ''rr'', ''server'', ''description'']"

definition dnatRuleFields :: "string list" where
  "dnatRuleFields = [''interface'', ''protocol'', ''source'', ''destination'', ''target'', ''local-port'', ''descr'']"

text \<open>How the tool fails: what could not be read, created or written, or the missing field and its source.\<close>

datatype gen_error = Reading string string | Missing_field string string | Creating string string | Executing string

text \<open>\<open>strings.Contains\<close>.\<close>

fun Contains_text :: "string \<Rightarrow> string \<Rightarrow> bool" where
  "Contains_text [] sub \<longleftrightarrow> sub = []"
| "Contains_text (c # cs) sub \<longleftrightarrow> HasPrefix (c # cs) sub \<or> Contains_text cs sub"

fun validateFields :: "string \<Rightarrow> string \<Rightarrow> string list \<Rightarrow> gen_error option" where
  "validateFields content source [] = None"
| "validateFields content source (field # fields) =
     (if \<not> Contains_text content (''<'' @ field) then Some (Missing_field field source)
      else validateFields content source fields)"

section \<open>What is written\<close>

abbreviation tab :: char where "tab \<equiv> CHR 0x09"

text \<open>The lines of the template, with the names of the two models filled in.\<close>

definition outputTemplate :: "string \<Rightarrow> string \<Rightarrow> string list" where
  "outputTemplate unbound dnat =
     [''// Code generated by tools/gen-opnsense-mocks. DO NOT EDIT.'',
      ''// Sources:'',
      ''//   '' @ unbound,
      ''//   '' @ dnat,
      [],
      ''package gateway'',
      [],
      ''// HostOverride holds fields for creating a single Unbound DNS host override.'',
      ''// Extracted from Unbound.xml items.hosts.host ArrayField.'',
      ''type HostOverride struct {'',
      tab # ''Enabled     string `json:\"enabled\"`'',
      tab # ''Hostname    string `json:\"hostname\"`'',
      tab # ''Domain      string `json:\"domain\"`'',
      tab # ''RR          string `json:\"rr\"`'',
      tab # ''Server      string `json:\"server\"`'',
      tab # ''Description string `json:\"description\"`'',
      ''}'',
      [],
      ''// HostOverrideRequest wraps HostOverride for add_host_override requests.'',
      ''type HostOverrideRequest struct {'',
      tab # ''Host HostOverride `json:\"host\"`'',
      ''}'',
      [],
      ''// HostOverrideRow is a single row in the search_host_override response.'',
      ''type HostOverrideRow struct {'',
      tab # ''UUID        string `json:\"uuid\"`'',
      tab # ''Enabled     string `json:\"enabled\"`'',
      tab # ''Hostname    string `json:\"hostname\"`'',
      tab # ''Domain      string `json:\"domain\"`'',
      tab # ''RR          string `json:\"rr\"`'',
      tab # ''Server      string `json:\"server\"`'',
      tab # ''Description string `json:\"description\"`'',
      ''}'',
      [],
      ''// HostOverrideSearchResult is the response body of search_host_override.'',
      ''type HostOverrideSearchResult struct {'',
      tab # ''Rows     []HostOverrideRow `json:\"rows\"`'',
      tab # ''RowCount int               `json:\"rowCount\"`'',
      tab # ''Total    int               `json:\"total\"`'',
      tab # ''Current  int               `json:\"current\"`'',
      ''}'',
      [],
      ''// NATRuleEndpoint represents the source or destination endpoint of a NAT rule.'',
      ''// Extracted from DNat.xml rule.source and rule.destination sub-elements.'',
      ''type NATRuleEndpoint struct {'',
      tab # ''Network string `json:\"network,omitempty\"`'',
      tab # ''Port    string `json:\"port,omitempty\"`'',
      ''}'',
      [],
      ''// NATRule holds fields for creating a single NAT port forwarding rule.'',
      ''// Extracted from DNat.xml items.rule ArrayField.'',
      ''type NATRule struct {'',
      tab # ''Interface   string          `json:\"interface\"`'',
      tab # ''Protocol    string          `json:\"protocol\"`'',
      tab # ''Source      NATRuleEndpoint `json:\"source\"`'',
      tab # ''Destination NATRuleEndpoint `json:\"destination\"`'',
      tab # ''Target      string          `json:\"target\"`'',
      tab # ''LocalPort   string          `json:\"local-port\"`'',
      tab # ''Description string          `json:\"descr\"`'',
      ''}'',
      [],
      ''// NATRuleRequest wraps NATRule for add_rule requests.'',
      ''type NATRuleRequest struct {'',
      tab # ''Rule NATRule `json:\"rule\"`'',
      ''}'',
      [],
      ''// NATRuleRow is a single row in the search_rule response.'',
      ''type NATRuleRow struct {'',
      tab # ''UUID        string `json:\"uuid\"`'',
      tab # ''Interface   string `json:\"interface\"`'',
      tab # ''Protocol    string `json:\"protocol\"`'',
      tab # ''Target      string `json:\"target\"`'',
      tab # ''LocalPort   string `json:\"local-port\"`'',
      tab # ''Description string `json:\"descr\"`'',
      ''}'',
      [],
      ''// NATRuleSearchResult is the response body of search_rule.'',
      ''type NATRuleSearchResult struct {'',
      tab # ''Rows     []NATRuleRow `json:\"rows\"`'',
      tab # ''RowCount int          `json:\"rowCount\"`'',
      tab # ''Total    int          `json:\"total\"`'',
      tab # ''Current  int          `json:\"current\"`'',
      ''}'',
      [],
      ''// OPNsenseResult is the standard response for add/del operations.'',
      ''type OPNsenseResult struct {'',
      tab # ''Result string `json:\"result\"`'',
      tab # ''UUID   string `json:\"uuid,omitempty\"`'',
      ''}'']"

definition output_text :: string where
  "output_text = concat (map (\<lambda>l. l @ [CHR 0x0A]) (outputTemplate unboundXML dnatXML))"

text \<open>Creating the output file can fail; writing gives what got into the file, and the error.\<close>

record gen_environment =
  gen_readFile :: "string \<Rightarrow> string result"
  gen_create :: "string \<Rightarrow> string option"
  gen_write :: "string \<Rightarrow> string \<times> string option"

text \<open>The result is the error, with which the tool exits with status 1, and the content of the output file
  if it was created.\<close>

definition gen_main :: "gen_environment \<Rightarrow> gen_error option \<times> string option" where
  "gen_main env =
     (case gen_readFile env unboundXML of
        Inl err \<Rightarrow> (Some (Reading unboundXML err), None)
      | Inr unboundContent \<Rightarrow>
          (case gen_readFile env dnatXML of
             Inl err \<Rightarrow> (Some (Reading dnatXML err), None)
           | Inr dnatContent \<Rightarrow>
               (case validateFields unboundContent unboundXML unboundHostFields of
                  Some err \<Rightarrow> (Some err, None)
                | None \<Rightarrow>
                    (case validateFields dnatContent dnatXML dnatRuleFields of
                       Some err \<Rightarrow> (Some err, None)
                     | None \<Rightarrow>
                         (case gen_create env outputFile of
                            Some err \<Rightarrow> (Some (Creating outputFile err), None)
                          | None \<Rightarrow>
                              (case gen_write env output_text of
                                 (written, Some err) \<Rightarrow> (Some (Executing err), Some written)
                               | (written, None) \<Rightarrow> (None, Some written)))))))"

section \<open>Laws\<close>

lemma Contains_text_iff: "Contains_text s sub \<longleftrightarrow> sublist sub s"
proof (induction s)
  case (Cons c s)
  then show ?case by (auto simp: sublist_Cons_right HasPrefix_iff prefix_def)
qed simp

lemma validateFields_eq:
  "validateFields content source names =
    map_option (\<lambda>f. Missing_field f source) (find (\<lambda>f. \<not> sublist (''<'' @ f) content) names)"
  by (induction content source names rule: validateFields.induct) (simp_all add: Contains_text_iff)

text \<open>The output file is touched only when both models have every field.\<close>

lemma gen_main_writes:
  assumes "gen_main env = (err, Some written)"
  shows "\<exists>u d. gen_readFile env unboundXML = Inr u \<and> gen_readFile env dnatXML = Inr d \<and>
    (\<forall>f \<in> set unboundHostFields. sublist (''<'' @ f) u) \<and> (\<forall>f \<in> set dnatRuleFields. sublist (''<'' @ f) d) \<and>
    written = fst (gen_write env output_text)"
  using assms
  by (auto simp: gen_main_def validateFields_eq find_None_iff split: sum.splits option.splits prod.splits)

text \<open>Every field that is checked is a field of the written types, under its JSON name.\<close>

definition json_tag :: "string \<Rightarrow> string" where
  "json_tag f = ''`json:'' @ [CHR 0x22] @ f @ [CHR 0x22] @ ''`''"

lemma template_has_fields:
  "list_all (\<lambda>f. list_ex (\<lambda>l. HasSuffix l (json_tag f)) (outputTemplate unboundXML dnatXML)) (unboundHostFields @ dnatRuleFields)"
  by code_simp

end
