(* ===== verification/Balancing.thy ===== *)
theory Balancing
  imports GenerateLaws
begin

text \<open>
  From the labels of containers to the text: containers that declare the same site with the labels
  \<open>caddy\<close> and \<open>caddy.reverse_proxy\<close> become one block with one \<open>reverse_proxy\<close> over the addresses of all.
\<close>

section \<open>Arguments written and read as they are\<close>

definition plain_arg :: "string \<Rightarrow> bool" where
  "plain_arg s \<longleftrightarrow> valid_utf8 s \<and> plain_key (decode_runes s) \<and> hd (decode_runes s) \<noteq> 65279"

lemma plain_arg_chars:
  assumes "plain_arg s"
  shows "s \<noteq> []" and "CHR '' '' \<notin> set s" and "CHR 0x0A \<notin> set s" and "CHR 0x22 \<notin> set s"
  using assms mem_ascii [of s "CHR '' ''"] mem_ascii [of s "CHR 0x0A"] mem_ascii [of s "CHR 0x22"]
  by (auto simp: plain_arg_def plain_key_def IsSpace_def)

lemma write_key_plain: "plain_arg s \<Longrightarrow> write_key s = s"
  using plain_arg_chars [of s] by (auto simp: write_key_def ContainsAny_def list_ex_iff)

lemma Join_Cons: "Join (k # ks) sep = k @ (if ks = [] then [] else sep @ Join ks sep)"
  by (cases ks) auto

lemma write_keys_plain:
  "\<forall>k \<in> set ks. plain_arg k \<Longrightarrow> write_keys ks b = (if b \<and> ks \<noteq> [] then '' '' else []) @ Join ks '' ''"
  by (induction ks arbitrary: b) (auto simp: write_key_plain Join_Cons)

lemma lexes_Join:
  "\<forall>k \<in> set ks. plain_arg k \<Longrightarrow> \<exists>ts. lexes [] (decode_runes (Join ks '' '')) 1 ts [] 1 \<and> map Text ts = ks"
proof (induction ks)
  case Nil
  show ?case by (auto simp: lexes_refl intro!: exI [of _ "[]"])
next
  case (Cons k ks)
  have k: "valid_utf8 k" "plain_key (decode_runes k)" and t: "Text (key_token [] 1 (decode_runes k)) = k"
    using Cons.prems by (auto simp: plain_arg_def key_token_def valid_utf8_def)
  show ?case
  proof (cases ks)
    case Nil
    then show ?thesis using lexes_plain_end [OF k(2), of "[]" 1] t by (auto intro!: exI [of _ "[key_token [] 1 (decode_runes k)]"])
  next
    case (Cons k' ks')
    obtain ts where ts: "lexes [] (decode_runes (Join ks '' '')) 1 ts [] 1" "map Text ts = ks"
      using Cons.IH Cons.prems by auto
    have d: "decode_runes (Join (k # ks) '' '') = decode_runes k @ 32 # decode_runes (Join ks '' '')"
      using Cons by (simp add: Join_Cons decode_append [OF k(1)])
    have "lexes [] (decode_runes (Join (k # ks) '' '')) 1 ([key_token [] 1 (decode_runes k)] @ [] @ ts) [] 1"
      unfolding d using lexes_plain [OF k(2), of 32 "[]"] lexes_blank ts(1) by (intro lexes_trans) auto
    then show ?thesis using t ts(2) by (auto intro!: exI [of _ "key_token [] 1 (decode_runes k) # ts"])
  qed
qed

lemma parseArgs_Join:
  assumes "\<forall>k \<in> set ks. plain_arg k"
  shows "parseArgs (Join ks '' '') = Inr ks"
proof (cases ks)
  case Nil
  then show ?thesis by (simp add: parseArgs_def)
next
  case (Cons k ks')
  have k: "valid_utf8 k" "k \<noteq> []" "hd (decode_runes k) \<noteq> 65279"
    using assms Cons plain_arg_chars(1) [of k] by (auto simp: plain_arg_def)
  obtain r rs where r: "decode_runes (Join ks '' '') = r # rs" "r \<noteq> 65279"
  proof (cases "decode_runes (Join ks '' '')")
    case Nil
    then show ?thesis using Cons k(2) by (simp add: Join_Cons)
  next
    case (Cons r rs)
    have "decode_runes (Join ks '' '') = decode_runes k @ decode_runes (if ks' = [] then [] else '' '' @ Join ks' '' '')"
      using \<open>ks = k # ks'\<close> by (simp add: Join_Cons decode_append [OF k(1)])
    then have "hd (decode_runes (Join ks '' '')) = hd (decode_runes k)" using k(2) by simp
    then show ?thesis using that Cons k(3) by simp
  qed
  obtain ts where ts: "lexes [] (r # rs) 1 ts [] 1" "map Text ts = ks" using lexes_Join [OF assms] r(1) by auto
  have "load (Join ks '' '') = Inr (at_start (r # rs) 1 \<lparr>File = [], Line = 0, Text = []\<rparr>)"
    using r by (simp add: load_def at_start_def)
  moreover have "Join ks '' '' \<noteq> []" using r(1) by auto
  ultimately show ?thesis using lexes_end [OF ts(1)] ts(2) by (simp add: parseArgs_def)
qed

section \<open>The labels of a proxied container\<close>

text \<open>Among the labels, those that are selected are \<open>caddy=site\<close> and \<open>caddy.reverse_proxy=template\<close>, in
  any order; the networks are those the generator found.\<close>

definition declares_site :: "string \<Rightarrow> string \<Rightarrow> string \<Rightarrow> labels \<Rightarrow> bool" where
  "declares_site prefix site template ls \<longleftrightarrow>
     mset (filter (\<lambda>(label, value). MatchString (label_regex prefix) label) ls) =
       {#(prefix, site), (prefix @ ''.reverse_proxy'', template)#} \<and>
     map_of ls IngressNetworkLabel = None"

definition proxied_at :: "CaddyfileGenerator \<Rightarrow> int \<Rightarrow> docker_container \<Rightarrow> string list" where
  "proxied_at g port c =
     sort (map (\<lambda>x. ep_IPAddress (snd x) @ '':'' @ Itoa port)
       (filter (\<lambda>x. is_ingress g (ep_NetworkID (snd x))) (dc_Networks c)))"

abbreviation site_block :: "string \<Rightarrow> string list \<Rightarrow> block" where
  "site_block site us \<equiv> Block MaxInt32 [site] [Block MaxInt32 (''reverse_proxy'' # us) []]"

lemma site_paths:
  "parsePath ''caddy'' = Some ([], MaxInt32, ''caddy'')"
  "parsePath ''caddy.reverse_proxy'' = Some (''caddy'', MaxInt32, ''reverse_proxy'')"
  "unescape_dots [] = []" "unescape_dots ''caddy'' = ''caddy''"
  by code_simp+

lemma FromLabels_site:
  assumes "ls \<in> {[(''caddy'', site), (''caddy.reverse_proxy'', template)], [(''caddy.reverse_proxy'', template), (''caddy'', site)]}"
    and "pv site = Inr s" "parseArgs s = Inr [site']" "pv template = Inr t" "parseArgs t = Inr us"
  shows "FromLabels pv ls = Inr [site_block site' us]"
  using assms
  by (auto simp: FromLabels_def add_label_def getOrCreateBlock.simps site_paths add_child_def CreateContainer_def
      AddBlockAt_def AddKeysAt_def AddBlock_def escapedDotPlaceholder_def HasPrefix_def)

lemma two_orders: "mset xs = {#a, b#} \<longleftrightarrow> xs = [a, b] \<or> xs = [b, a]"
proof
  assume m: "mset xs = {#a, b#}"
  then have "length xs = 2" by (metis size_mset mset.simps size_add_mset size_empty numeral_2_eq_2)
  then obtain x y where "xs = [x, y]" by (auto simp: numeral_2_eq_2 length_Suc_conv)
  then show "xs = [a, b] \<or> xs = [b, a]" using m by (auto simp: add_eq_conv_ex)
qed auto

lemma getContainerCaddyfile_site:
  assumes "declares_site (LabelPrefix (options g)) site template (dc_Labels c)"
    and "labelRegex g = label_regex (LabelPrefix (options g))"
    and "\<forall>fm. expand (ContainerData c) fm site = Inr site \<and> expand (ContainerData c) fm template = fm_upstreams fm [Port_option port]"
    and "plain_arg site" and "\<forall>u \<in> set (proxied_at g port c). plain_arg u"
  shows "getContainerCaddyfile expand g c = Inr [site_block site (proxied_at g port c)]"
proof -
  let ?p = "LabelPrefix (options g)"
  have r: "Replace1 ?p ?p ''caddy'' = ''caddy''" "Replace1 (?p @ ''.reverse_proxy'') ?p ''caddy'' = ''caddy.reverse_proxy''"
    using Replace1_prefix [of ?p ?p "''caddy''"] HasPrefix_append [of ?p "[]"] by (simp_all add: Replace1_prefix)
  have "filter (\<lambda>(label, value). MatchString (labelRegex g) label) (dc_Labels c) \<in>
      {[(?p, site), (?p @ ''.reverse_proxy'', template)], [(?p @ ''.reverse_proxy'', template), (?p, site)]}"
    using assms(1) unfolding declares_site_def assms(2) two_orders by simp
  then have ls: "filterLabels g (dc_Labels c) \<in>
      {[(''caddy'', site), (''caddy.reverse_proxy'', template)], [(''caddy.reverse_proxy'', template), (''caddy'', site)]}"
    by (auto simp: filterLabels_def r)
  have ips: "upstreams (getContainerIPAddresses g c True) [Port_option port] = Inr (Join (proxied_at g port c) '' '')"
    using assms(1) by (simp add: declares_site_def container_ips_ingress upstreams_eq proxied_at_def comp_def)
  have "parseArgs site = Inr [site]" using parseArgs_Join [of "[site]"] assms(4) by simp
  then show ?thesis
    unfolding getContainerCaddyfile_def labelsToCaddyfile_def
    using assms(3) ips parseArgs_Join [OF assms(5)] by (intro FromLabels_site [OF ls]) auto
qed

section \<open>Merging and writing\<close>

lemma merge_sites:
  assumes "\<forall>ts \<in> set tss. \<forall>u \<in> set ts. \<not> isMatcher u" and "\<forall>u \<in> set us. \<not> isMatcher u"
  shows "foldl Merge [site_block site us] (map (\<lambda>ts. [site_block site ts]) tss) = [site_block site (us @ concat tss)]"
  using assms
proof (induction tss arbitrary: us)
  case (Cons ts tss)
  have k: "proxy_keys 0 ts = ts" using Cons.prems(1) by (cases ts) (simp_all add: proxy_keys_eq)
  have m: "getMatcher (Block MaxInt32 (''reverse_proxy'' # xs) []) = ''*''" if "\<forall>u \<in> set xs. \<not> isMatcher u" for xs
    using that by (cases xs) (auto simp: getMatcher_def)
  have "Merge [site_block site us] [site_block site ts] = [site_block site (us @ ts)]"
    using Cons.prems m [of us] m [of ts] k by (simp add: GetFirstKey_def proxy_like_def)
  then show ?case using Cons.IH [of "us @ ts"] Cons.prems by auto
qed simp

lemma site_text:
  assumes "plain_arg site" and "\<forall>u \<in> set us. plain_arg u"
  shows "MarshalContainer [site_block site us] =
    site @ '' {'' @ [CHR 0x0A, CHR 0x09] @ Join (''reverse_proxy'' # us) '' '' @ [CHR 0x0A] @ ''}'' @ [CHR 0x0A]"
proof -
  have "MarshalContainer [site_block site us] = write_container [site_block site us] 0"
    by (rule Marshal_sorted) (subst sorted_container.simps, simp, subst sorted_container.simps, simp)
  moreover have "write_key ''reverse_proxy'' = ''reverse_proxy''" by (simp add: write_key_def ContainsAny_def)
  ultimately show ?thesis using assms by (simp add: write_keys_plain write_key_plain Join_Cons Repeat_def)
qed

section \<open>The whole generation\<close>

lemma foldl_Merge_sites:
  assumes "\<forall>ts \<in> set tss. \<forall>u \<in> set ts. \<not> isMatcher u" and "tss \<noteq> []"
  shows "foldl Merge [] (map (\<lambda>ts. [site_block site ts]) tss) = [site_block site (concat tss)]"
  using merge_sites [of "tl tss" "hd tss" site] assms by (cases tss) auto

lemma refresh_no_swarm:
  assumes "\<forall>c \<in> set clients. Info c \<noteq> Inr ''active''"
  shows "swarmIsAvailable (refresh cid now clients (CreateGenerator clients opts)) = map (\<lambda>c. False) clients"
  using assms by (auto simp: refresh_def CreateGenerator_def checkSwarmAvailability_def Let_def split: sum.split)

lemma all_sources_containers:
  assumes "CaddyfilePath (options g) = []" and "swarmIsAvailable g = map (\<lambda>c. False) clients"
    and "\<forall>c \<in> set (concat (map (visible_containers (options g)) clients)). getContainerCaddyfile expand g c = Inr (f c)"
  shows "all_sources expand readFile clients g = map f (concat (map (visible_containers (options g)) clients))"
    and "\<not> generation_panics expand clients g"
proof -
  have z: "zip clients (swarmIsAvailable g) = map (\<lambda>c. (c, False)) clients"
    unfolding assms(2) by (induction clients) simp_all
  have s: "client_sources expand clients g (c, False) = map f (visible_containers (options g) c)" if "c \<in> set clients" for c
  proof -
    have "concat (map (\<lambda>x. label_source (getContainerCaddyfile expand g x)) xs) = map f xs"
      if "\<forall>x \<in> set xs. getContainerCaddyfile expand g x = Inr (f x)" for xs
      using that by (induction xs) (auto simp: label_source_def)
    then show ?thesis using assms(3) that by (simp add: client_sources_def visible_services_def)
  qed
  show "all_sources expand readFile clients g = map f (concat (map (visible_containers (options g)) clients))"
    using s by (simp add: all_sources_def base_source_def assms(1) z comp_def map_concat cong: map_cong)
  show "\<not> generation_panics expand clients g"
    using assms(3) by (auto simp: generation_panics_def list_ex_iff z client_panics_def visible_services_def)
qed

end
