(* ===== verification/Samples.thy ===== *)
theory Samples
  imports Workers Balancing ReconcileStable
begin

text \<open>
  Concrete settings in which the properties of the root theory are applied: a firewall that answers
  every request, a Docker host, a generator and a loader with the default options.
\<close>

section \<open>The gateway\<close>

definition sample_firewall :: "unit sender" where
  "sample_firewall req w = (Inr \<lparr>res_UUID = ''u1'', res_Rows = [], res_revision = ''r1''\<rparr>, w)"

definition sample_client :: Client where
  "sample_client = NewClientWithURL ''http://fw'' ''key'' ''secret''"

definition sample_hosts :: "docker_host list" where
  "sample_hosts = [\<lparr>dh_HostIP = ''10.0.0.2'', dh_containers = Inr [(''0123456789ab'',
     [(''gateway.portforward.1.protocol'', ''tcp''), (''gateway.portforward.1.src_port'', ''80''),
      (''gateway.portforward.1.dst_port'', ''8080'')])]\<rparr>]"

definition sample_state :: State where
  "sample_state = \<lparr>dnsUUIDs = [''feedfeedfeed'' \<mapsto> [''u0''], ''0123456789ab'' \<mapsto> [''u9'']], natUUIDs = Map.empty\<rparr>"

lemma sample_enabled: "Enabled sample_client"
  by (simp add: Enabled_def sample_client_def NewClientWithURL_def)

lemma sample_orders:
  "iteration_orders ip sample_hosts sample_state [''feedfeedfeed'', ''0123456789ab''] [''0123456789ab'']"
  by (auto simp: iteration_orders_def KnownContainerIDs_def sample_hosts_def sample_state_def Let_def)

lemma sample_dom: "dom (collect_current ip sample_hosts Map.empty) = {''0123456789ab''}"
  by (simp add: sample_hosts_def Let_def)

lemma sample_current: "''0123456789ab'' \<in> dom (collect_current ip sample_hosts Map.empty)"
    "collect_current ip sample_hosts Map.empty ''feedfeedfeed'' = None"
  by (simp_all add: sample_hosts_def Let_def)

abbreviation sample_outcome :: "(unit \<times> request list) outcome" where
  "sample_outcome \<equiv> reconcileGateway (logged sample_firewall) sample_client ''10.0.0.1'' ''caddy'' sample_hosts
      [''feedfeedfeed'', ''0123456789ab''] [''0123456789ab''] sample_state ((), [])"

lemma sample_run: obtains r' where "sample_outcome = Inr r'"
proof -
  have "\<forall>cid \<in> set [''feedfeedfeed'', ''0123456789ab''] \<union> set [''0123456789ab'']. 12 \<le> length cid" by simp
  from reconcile_returns [OF this, of "logged sample_firewall" sample_client "''10.0.0.1''" "''caddy''" sample_hosts sample_state "((), [])"]
  obtain r' where "sample_outcome = Inr r'" ..
  then show thesis by (rule that)
qed

lemma sample_answers: "answers (logged sample_firewall)"
  by (simp add: answers_def logged_def sample_firewall_def)

section \<open>A generator\<close>

text \<open>A Docker host with some containers, which is not part of a swarm.\<close>

definition sample_docker :: "docker_container list \<Rightarrow> docker_client" where
  "sample_docker cs =
     \<lparr>ContainerList = (\<lambda>all. Inr cs), ServiceList = Inl [], TaskList = (\<lambda>s. Inl []), Info = Inl [],
      ContainerInspect = (\<lambda>c. Inl []), NetworkInspect = (\<lambda>n. Inl []), NetworkList = Inl [], ConfigList = Inl [],
      ConfigInspectWithRaw = (\<lambda>c. Inl []), HostIP = []\<rparr>"

definition sample_options :: "bool \<Rightarrow> Options" where
  "sample_options check = createOptions (\<lambda>s. Inl []) (\<lambda>v. []) (default_flags\<lparr>flag_process_caddyfile := check\<rparr>)"

definition sample_container :: "labels \<Rightarrow> docker_container" where
  "sample_container ls = \<lparr>dc_ID = ''0123456789ab'', dc_Labels = ls, dc_Networks = []\<rparr>"

lemma sample_options_simps [simp]:
  "ProcessCaddyfile (sample_options check) = check" "LabelPrefix (sample_options check) = ''caddy''"
  "CaddyfilePath (sample_options check) = []" "ScanStoppedContainers (sample_options check) = False"
  "ControlledServersLabel (sample_options check) = ''caddy_controlled_server''"
  "Mode (sample_options check) = 3" "IngressNetworks (sample_options check) = []" "AdminListen (sample_options check) = []"
  by (simp_all add: sample_options_def createOptions_def default_flags_def DefaultLabelPrefix_def env_or_def bool_option_def
      list_option_def mode_of_def Controller_def Server_def Standalone_def)

definition sample_generator :: "bool \<Rightarrow> CaddyfileGenerator" where
  "sample_generator check = \<lparr>options = sample_options check, labelRegex = label_regex ''caddy'', ingressNetworks = Map.empty,
     swarmIsAvailable = [False], swarmIsAvailableTime = Some 0\<rparr>"

abbreviation sample_generation :: "bool \<Rightarrow> labels \<Rightarrow> ((string \<times> string list) \<times> CaddyfileGenerator) option" where
  "sample_generation check ls \<equiv>
     GenerateCaddyfile (\<lambda>t. None) (\<lambda>d f t. Inr t) (\<lambda>p. Inl []) (Inl []) 0 [sample_docker [sample_container ls]] (sample_generator check)"

lemma sample_refresh: "refresh (Inl []) 0 [sample_docker cs] (sample_generator check) = sample_generator check"
  by (simp add: refresh_def getIngressNetworks_def client_networks_def sample_generator_def Let_def swarmAvailabilityCacheInterval_def)

lemma sample_generation_eq:
  "sample_generation False ls =
    (case getContainerCaddyfile (\<lambda>d f t. Inr t) (sample_generator False) (sample_container ls) of
       Inl NilMatch \<Rightarrow> None
     | Inl e \<Rightarrow> Some ((''# Empty caddyfile'', all_servers [sample_docker [sample_container ls]] (sample_generator False)), sample_generator False)
     | Inr cs \<Rightarrow> Some ((if Merge [] cs = [] then ''# Empty caddyfile'' else MarshalContainer (Merge [] cs), all_servers [sample_docker [sample_container ls]] (sample_generator False)), sample_generator False))"
  unfolding GenerateCaddyfile_eq sample_refresh Let_def
  by (simp add: sample_generator_def all_sources_def client_sources_def client_panics_def base_source_def
    visible_containers_def visible_services_def sample_docker_def ok_source_def label_source_def caddyfile_text_eq Marshal_Nil_iff
    split: sum.split labels_error.split)

text \<open>Labels that declare the same site twice, with one upstream each.\<close>

definition two_sites :: "labels" where
  "two_sites = [(''caddy_0'', ''a''), (''caddy_0.reverse_proxy'', ''x''), (''caddy_1'', ''a''), (''caddy_1.reverse_proxy'', ''y'')]"

lemma two_sites_selected: "filterLabels (sample_generator False) two_sites = two_sites" "filterLabels (sample_generator False) (rev two_sites) = rev two_sites"
  by (simp_all add: filterLabels_def sample_generator_def two_sites_def label_regex_def MatchString_def is_digit_def HasPrefix_def)

lemma two_sites_paths:
 "parsePath ''caddy_0'' = Some ([], MaxInt32, ''caddy'')"
 "parsePath ''caddy_1'' = Some ([], MaxInt32, ''caddy'')"
 "parsePath ''caddy_0.reverse_proxy'' = Some (''caddy_0'', MaxInt32, ''reverse_proxy'')"
 "parsePath ''caddy_1.reverse_proxy'' = Some (''caddy_1'', MaxInt32, ''reverse_proxy'')"
 "unescape_dots [] = []" "unescape_dots ''caddy_0'' = ''caddy_0''"  "unescape_dots ''caddy_1'' = ''caddy_1''"
  by code_simp+

lemma two_sites_args: "parseArgs ''a'' = Inr [''a'']" "parseArgs ''x'' = Inr [''x'']" "parseArgs ''y'' = Inr [''y'']"
  by (rule parseArgs_plain; simp add: plain_key_def IsSpace_def)+

lemma two_sites_tree: "FromLabels Inr two_sites =
  Inr [Block MaxInt32 [''a''] [Block MaxInt32 [''reverse_proxy'', ''x''] []], Block MaxInt32 [''a''] [Block MaxInt32 [''reverse_proxy'', ''y''] []]]"
  by (simp add: two_sites_def FromLabels_def add_label_def getOrCreateBlock.simps two_sites_paths two_sites_args add_child_def CreateContainer_def AddBlockAt_def AddKeysAt_def AddBlock_def escapedDotPlaceholder_def HasPrefix_def)

lemma two_sites_rev_tree: "FromLabels Inr (rev two_sites) =
  Inr [Block MaxInt32 [''a''] [Block MaxInt32 [''reverse_proxy'', ''y''] []], Block MaxInt32 [''a''] [Block MaxInt32 [''reverse_proxy'', ''x''] []]]"
  by (simp add: two_sites_def FromLabels_def add_label_def getOrCreateBlock.simps two_sites_paths two_sites_args add_child_def CreateContainer_def AddBlockAt_def AddKeysAt_def AddBlock_def escapedDotPlaceholder_def HasPrefix_def)

lemma two_sites_merge:
  assumes "\<not> isMatcher u" "\<not> isMatcher v"
  shows "Merge [] [Block o1 [''a''] [Block o2 [''reverse_proxy'', u] []], Block o3 [''a''] [Block o4 [''reverse_proxy'', v] []]] =
    [Block o1 [''a''] [Block o2 [''reverse_proxy'', u, v] []]]"
  using assms by (simp add: proxy_like_def GetFirstKey_def getMatcher_def)

lemma two_sites_text:
  "MarshalContainer [Block MaxInt32 [''a''] [Block MaxInt32 ks []]] = write_container [Block MaxInt32 [''a''] [Block MaxInt32 ks []]] 0"
  by (rule Marshal_sorted) (subst sorted_container.simps, simp, subst sorted_container.simps, simp)

text \<open>Two containers of the same web service, on a host where the controller is attached to their network.\<close>

definition web_container :: "string \<Rightarrow> docker_container" where
  "web_container ip = \<lparr>dc_ID = ''0123456789ab'', dc_Labels = [(''caddy.reverse_proxy'', ''{{upstreams 80}}''), (''x'', ''y''), (''caddy'', ''a.test'')],
     dc_Networks = [(''web'', \<lparr>ep_NetworkID = ''n1'', ep_IPAddress = ip\<rparr>)]\<rparr>"

definition web_docker :: docker_client where
  "web_docker = (sample_docker [web_container ''10.0.0.7'', web_container ''10.0.0.8''])
     \<lparr>ContainerInspect := (\<lambda>c. Inr \<lparr>cj_Labels = None, cj_NetworkIDs = [''n1'']\<rparr>),
      NetworkInspect := (\<lambda>n. Inr \<lparr>nw_ID = ''n1'', nw_Name = ''web'', nw_Ingress = False\<rparr>)\<rparr>"

definition web_expand :: expander where
  "web_expand d fm t = (if t = ''{{upstreams 80}}'' then fm_upstreams fm [Port_option 80] else Inr t)"

section \<open>A loader\<close>

text \<open>Nothing to proxy, and a server that takes every configuration; the adapter changes nothing.\<close>

definition sample_json :: "unit json" where
  "sample_json = \<lparr>json_Unmarshal = (\<lambda>s. Inr \<lparr>Admin = None, rest_of_config = ()\<rparr>), json_Marshal = (\<lambda>c. Inr ''{}'')\<rparr>"

definition sample_environment :: "(unit, unit) environment" where
  "sample_environment =
     \<lparr>env_clients = [], env_adapter = Inr, env_expand = (\<lambda>d f t. Inr t), env_readFile = (\<lambda>p. Inl []),
      env_currentContainerID = Inr [], env_now = 0, env_json = sample_json, env_post = (\<lambda>url body w. (Inr 200, w)),
      env_files = \<lparr>autosavePath = ''Caddyfile.autosave'', WriteFile = (\<lambda>p t w. (None, w)), Rename = (\<lambda>p q w. (None, w))\<rparr>,
      env_send = sample_firewall, env_getenv = (\<lambda>v. []), env_known = [], env_running = []\<rparr>"

abbreviation sample_loader :: DockerLoader where
  "sample_loader \<equiv> CreateDockerLoader (sample_options True)"

lemma sample_generate:
  "generate sample_environment sample_loader =
    Some ((''# Empty caddyfile'', [''localhost'']),
      \<lparr>options = sample_options True, labelRegex = label_regex ''caddy'', ingressNetworks = Map.empty,
       swarmIsAvailable = [], swarmIsAvailableTime = Some 0\<rparr>)"
  by (simp add: GenerateCaddyfile_eq Let_def sample_environment_def CreateDockerLoader_def CreateGenerator_def
      refresh_def getIngressNetworks_def checkSwarmAvailability_def local_clients_def all_sources_def all_servers_def
      base_source_def caddyfile_text_eq MarshalContainer_def Process_def Server_def)

lemma sample_accepting: "accepting (env_json sample_environment) (env_post sample_environment) dl s"
  by (simp add: accepting_def sample_environment_def send_config_def addAdminListen_def sample_json_def)

lemma sample_update: obtains dl w where "update sample_environment (sample_loader, ()) = Some ((dl, w), True)"
proof -
  let ?dl = "(rearmed sample_loader)\<lparr>generator := snd (the (generate sample_environment sample_loader))\<rparr>"
  let ?dl1 = "?dl\<lparr>lastCaddyfile := ''# Empty caddyfile'', lastJSONConfig := ''# Empty caddyfile'', lastVersion := 1\<rparr>"
  have publish: "publish (env_adapter sample_environment) ''# Empty caddyfile'' ?dl = (?dl1, True)"
    by (simp add: publish_def sample_environment_def CreateDockerLoader_def)
  obtain dl2 w2 where server:
    "updateServer (env_json sample_environment) (env_post sample_environment) ''localhost'' (?dl1, ()) = (dl2, w2)" by (metis surj_pair)
  have "gatewayClient (fst (updateServer js post server (dl, w))) = gatewayClient dl" for js post server dl and w :: unit
    by (simp add: updateServer_def Let_def split: prod.split bool.split)
  from this [of "env_json sample_environment" "env_post sample_environment" "''localhost''" ?dl1 "()"]
  have "\<not> Enabled (gatewayClient dl2)"
    unfolding server by (simp add: CreateDockerLoader_def Enabled_def NewClientWithURL_def)
  then have reconcile: "loader_reconcile sample_environment (dl2, ()) = Some (dl2\<lparr>gatewayState := gatewayState dl2\<rparr>, ())"
    by (simp add: loader_reconcile_def reconcileGateway_def)
  show thesis
    by (rule that [of "dl2\<lparr>gatewayState := gatewayState dl2\<rparr>" "()"]) (simp add: update_eq sample_generate publish [unfolded sample_generate, simplified] server [unfolded sample_generate, simplified] reconcile)
qed

text \<open>A Docker host on which the labels of the manager name one remote host.\<close>

definition sample_sdk :: sdk_client where
  "sample_sdk =
     \<lparr>sdk_ContainerList = (\<lambda>all. Inr []), sdk_ServiceList = Inl [], sdk_TaskList = (\<lambda>s. Inl []), sdk_Info = Inl [],
      sdk_ContainerInspect = (\<lambda>c. Inr \<lparr>cj_Labels = Some [(''gateway.remote.1.url'', ''http://b'')], cj_NetworkIDs = []\<rparr>),
      sdk_NetworkInspect = (\<lambda>n. Inl []), sdk_NetworkList = Inl [], sdk_ConfigList = Inl [], sdk_ConfigInspect = (\<lambda>c. Inl [])\<rparr>"

text \<open>A schedule of two goroutines for the same server, the second of which is slow.\<close>

definition two_goroutines :: "action list" where
  "two_goroutines =
     [Publish_config ''old'', Bump_version, Start_worker ''s'', Start_worker ''s'',
      Step_worker 0 Accepted, Step_worker 1 Accepted] @
     replicate 4 (Step_worker 0 Accepted) @ replicate 4 (Step_worker 1 Accepted) @
     replicate 3 (Step_worker 0 Accepted) @
     [Publish_config ''new'', Bump_version, Start_worker ''s''] @
     replicate 6 (Step_worker 2 Accepted) @ replicate 3 (Step_worker 1 Accepted) @ replicate 2 (Step_worker 2 Accepted)"

end
