(* ===== verification/Spec2Isabelle.thy ===== *)
theory Spec2Isabelle
  imports Prelude Utf8 GoStrings IPAddress Block Ordering Marshal Lexer TreeStore Unmarshal RoundTrip
    Merge Process Regex LabelPath LabelTree Labels Docker Generator Generate GenerateLaws
    GatewayClient GatewayState GatewayLabels Reconcile ReconcileLaws ReconcileTrace ReconcileStable
    CMaps Command Loader LoaderLaws EventLoop Workers RuneRegex ContainerID GenMocks Balancing Samples
begin

text \<open>
  homelab-manager is a Caddy module. Its loader watches Docker hosts, generates a Caddyfile from the
  labels of containers and services, sends the resulting configuration to Caddy servers, and keeps
  the DNS overrides and NAT rules of an OPNsense firewall in line with the running containers. This
  development models the program and proves what makes it correct.

  \<^bold>\<open>The parts and how they interact.\<close> The command (\<open>cmd.go\<close>) makes options from flags and environment and
  starts a Caddy server, the loader, or both. The loader (\<open>loader.go\<close>) connects to the Docker hosts
  and runs \<open>update\<close> on a timer, which Docker events rearm. An update asks the generator
  (\<open>generator/\<close>) for a Caddyfile and a list of servers. The generator turns the labels of
  each container and service into a tree of blocks (\<open>caddyfile/fromlabels.go\<close>), merges the trees
  (\<open>caddyfile/merge.go\<close>), writes the result sorted (\<open>caddyfile/marshal.go\<close>), and drops the blocks Caddy
  rejects (\<open>caddyfile/processor.go\<close>), for which the text is parsed again (\<open>caddyfile/lexer.go\<close>). The
  loader adapts the Caddyfile and sends it to the servers in goroutines, whose shared state is in two
  concurrent maps (\<open>utils/\<close>). At the end of an update it reconciles the gateway
  (\<open>loader_gateway.go\<close>) through the client and the ownership state of package \<open>gateway\<close>.

  \<^bold>\<open>Theories.\<close> The standard library: \<open>Prelude\<close> (stable sort, lists, results), \<open>Utf8\<close>, \<open>GoStrings\<close>,
  \<open>IPAddress\<close> (package \<open>net\<close>), \<open>Regex\<close> and \<open>RuneRegex\<close> (package \<open>regexp\<close>, on bytes and on runes).
    \<^item> \<open>Block\<close>, \<open>Ordering\<close>, \<open>Marshal\<close>, \<open>Lexer\<close>, \<open>Unmarshal\<close>, \<open>Merge\<close>, \<open>Process\<close>: package \<open>caddyfile\<close>. A
      container is the list of its blocks, and operations return the updated value. Where the code
      keeps pointers while a tree grows (the parser, \<open>FromLabels\<close>) \<open>TreeStore\<close> gives positions
      instead; where it compares pointers (\<open>Remove\<close>) blocks carry tags. \<open>RoundTrip\<close> relates writer and
      parser.
    \<^item> \<open>LabelPath\<close>, \<open>Labels\<close>, \<open>LabelTree\<close>: \<open>parsePath\<close>, \<open>FromLabels\<close>, \<open>getOrCreateBlock\<close>, \<open>parseArgs\<close>, and
      what tree they make.
    \<^item> \<open>Docker\<close>: \<open>docker/client.go\<close>, \<open>docker/remote.go\<close> and \<open>config/options.go\<close>. A client is a record of what
      its host answers. \<open>ContainerID\<close>: \<open>docker/utils.go\<close>.
    \<^item> \<open>Generator\<close>, \<open>Generate\<close>, \<open>GenerateLaws\<close>, \<open>Balancing\<close>: package \<open>generator\<close>. The record \<open>CaddyfileGenerator\<close> has the fields
      of the Go struct except for the clients, which are an argument, as their answers change.
    \<^item> \<open>GatewayClient\<close>, \<open>GatewayState\<close>: package \<open>gateway\<close>. \<open>GatewayLabels\<close>, \<open>Reconcile\<close> with \<open>ReconcileLaws\<close>,
      \<open>ReconcileTrace\<close> and \<open>ReconcileStable\<close>: \<open>loader_gateway.go\<close>, the two records of UUIDs of
      \<open>gateway/state.go\<close> being the state.
    \<^item> \<open>CMaps\<close>: package \<open>utils\<close>. \<open>Command\<close>: \<open>cmd.go\<close>. \<open>Loader\<close>, \<open>LoaderLaws\<close>: \<open>loader.go\<close>, the state being the
      record \<open>DockerLoader\<close>. \<open>EventLoop\<close>: the listener and overlapping updates as steps on the timer and the flags.
      \<open>Workers\<close>: the goroutines of \<open>updateServer\<close> as steps on shared state.
    \<^item> \<open>GenMocks\<close>: the tool \<open>tools/gen-opnsense-mocks\<close>, which writes \<open>gateway/opnsense_types_gen.go\<close>; the
      fields it checks are fields of the types it writes.
    \<^item> \<open>Samples\<close>: concrete settings in which the properties are applied.

  \<^bold>\<open>Interfaces.\<close> \<open>less_fun\<close> (a comparator for \<open>sort.SliceStable\<close>; interpreted on \<open>compare_blocks\<close>, on tagged
  blocks and on every linear order), \<open>tree_store\<close> (pointers into a growing tree; on containers),
  \<open>ownership_table\<close> (add, remove and ask for the rules of a container; on the DNS and the NAT methods),
  \<open>entry_fields\<close> (filling numbered entries from labels; on remote hosts and port forwards),
  \<open>call_invariant\<close> (what every API call of a run keeps; on the log of requests), and \<open>default_map\<close> (a
  total map with a default; on the two concurrent maps).

  \<^bold>\<open>What the lemmas show.\<close>
    \<^item> Generator (C1 to C8): the text is the checked merge of all sources; no container is lost; what is
      generated is accepted by Caddy; the text for containers that share a site; which labels and addresses
      are used; where the iteration order of Go
      maps shows; and how the program finds the ID of its own container.
    \<^item> Loader (C9 to C18): the kept configuration and the recorded versions are an invariant of
      updates; which servers get it; a second update sends nothing; what a rejected Caddyfile does; however listener and
      updates interleave, no event is missed; in every interleaving of goroutines a recorded version was
      taken by the server; one goroutine alone is the sequential function; the flag that should exclude a
      second goroutine does not always; which events are heard; that indices are in range.
    \<^item> Gateway (C19 to C28): ownership follows the running containers, deletions are exact, changes of NAT
      rules are bracketed by savepoint and apply, a run that met no error leaves nothing to do,
      ownership marks round-trip, rules do not depend on iteration orders, and two error paths.
    \<^item> Labels (C29 to C32): conversion does not depend on the iteration order, its tree, how it fails, and the
      closed form of the label syntax.
    \<^item> Caddyfiles (C33 to C39): the comparator is a total order, sorting is canonical, parsing inverts
      writing, parsing never meets a nil block, reading tokens ends, merging keeps and covers, and checking
      accounts for every block.
    \<^item> The command (C40): its options, what it starts and how it ends. The contract of the two concurrent maps is proved in \<open>CMaps\<close>.

  \<^bold>\<open>Conventions.\<close> A Go string or byte slice is a list of bytes. A map that is iterated over is the list of
  its entries in the order of the iteration, so a statement for all lists is one for all orders; other
  maps are functions to options. An error is \<open>Inl\<close> of its text or of a datatype, a panic an outcome of its
  own (\<open>NilMatch\<close>, \<open>None\<close>, or \<open>Inl\<close> of the state reached). All functions are total and nothing runs on
  fuel: lexing recurses on the rest of the input, label paths on their length, merging and comparing on
  the size of the trees. \<open>run_alone\<close> makes eight steps because a goroutine has at most eight. Orders
  and versions are \<open>int\<close>; \<open>Atoi\<close> checks the range of a 64-bit integer.

  \<^bold>\<open>Parameters\<close> stand for what is not part of the repository: the Docker SDK, the Caddyfile adapter of Caddy,
  starting and stopping Caddy, the expansion of templates, JSON and HTTP, the answers of the firewall,
  the environment, files, the clock and the network interfaces, \<open>url.Parse\<close>, and \<open>time.ParseDuration\<close>,
  which computes in floating point. What a property needs of them is a hypothesis of it.

  \<^bold>\<open>Not modelled.\<close> Logging. \<open>processVariables\<close>, a call of \<open>text/template\<close>. The test doubles under \<open>docker/\<close>
  and the registration in \<open>module.go\<close>, which have no logic. In \<open>Workers\<close> the two assignments by which an
  update publishes a configuration do not overlap with those of another update. The network
  settings and endpoints of a container, which Docker always fills, are not nil. The ID of the own
  container that the generator gets is the result of \<open>GetCurrentContainerID\<close>.
\<close>

section \<open>The generated Caddyfile\<close>

text \<open>C1: the generated Caddyfile in closed form. The sources are the base file, the swarm configs, the
  containers and the services, in the order of the loops; a source that cannot be read contributes
  nothing and disturbs no other. Their containers are merged and written, then checked if checking is
  on, and never is the result empty. The generation panics exactly when the labels of a container or
  service make the conversion panic.\<close>

theorem GenerateCaddyfile_result:
  "GenerateCaddyfile Adapt expand readFile cid now clients g =
    (let g' = refresh cid now clients g;
         text = MarshalContainer (foldl Merge [] (all_sources expand readFile clients g'));
         content = (if ProcessCaddyfile (options g') then fst (Process Adapt text) else text) in
     if generation_panics expand clients g' then None
     else Some ((if content = [] then ''# Empty caddyfile'' else content, all_servers clients g'), g'))"
  unfolding GenerateCaddyfile_eq generation_panics_def list_ex_iff Let_def caddyfile_text_eq by simp



text \<open>C3: with checking on, the adapter accepts every Caddyfile that is generated, given that it accepts
  the empty one.\<close>

theorem generated_accepted:
  assumes "GenerateCaddyfile Adapt expand readFile cid now clients g = Some ((content, srv), g')"
    and "ProcessCaddyfile (options g)" and "Adapt ''# Empty caddyfile'' = None"
  shows "Adapt content = None"
  using GenerateCaddyfile_Some(2) [OF assms(1)] caddyfile_text_accepted [of "options g" Adapt] assms(2,3) by auto

lemma generated_accepted_witness:
  "\<exists>content. GenerateCaddyfile (\<lambda>t. if length t < 30 then None else Some ''bad'') (\<lambda>d f t. Inr t) (\<lambda>p. Inl []) (Inl []) 0 []
      (sample_generator True) = Some ((content, [''localhost'']), sample_generator True) \<and>
    (if length content < 30 then None else Some ''bad'') = None"
proof -
  have r: "refresh (Inl []) 0 [] (sample_generator True) = sample_generator True"
    by (simp add: refresh_def getIngressNetworks_def sample_generator_def Let_def swarmAvailabilityCacheInterval_def)
  obtain content where "GenerateCaddyfile (\<lambda>t. if length t < 30 then None else Some ''bad'') (\<lambda>d f t. Inr t) (\<lambda>p. Inl []) (Inl []) 0 []
      (sample_generator True) = Some ((content, [''localhost'']), sample_generator True)"
    unfolding GenerateCaddyfile_eq r Let_def by (simp add: all_servers_def sample_generator_def Server_def)
  with generated_accepted [OF this] show ?thesis by (auto simp: sample_generator_def)
qed



text \<open>C5: the generated Caddyfile depends on the order in which Go iterates over a label map: a container
  that declares a site twice gets its upstreams in either order, so the text, and with it the
  configuration, changes from one generation to the next although nothing has changed.\<close>

theorem generation_order_dependent:
  "mset (rev two_sites) = mset two_sites \<and>
   map_option (fst \<circ> fst) (sample_generation False two_sites) =
     Some (''a {'' @ [CHR 0x0A, CHR 0x09] @ ''reverse_proxy x y'' @ [CHR 0x0A] @ ''}'' @ [CHR 0x0A]) \<and>
   map_option (fst \<circ> fst) (sample_generation False (rev two_sites)) =
     Some (''a {'' @ [CHR 0x0A, CHR 0x09] @ ''reverse_proxy y x'' @ [CHR 0x0A] @ ''}'' @ [CHR 0x0A])"
proof -
  have tree: "getContainerCaddyfile (\<lambda>d f t. Inr t) (sample_generator False) (sample_container two_sites) = FromLabels Inr two_sites"
    "getContainerCaddyfile (\<lambda>d f t. Inr t) (sample_generator False) (sample_container (rev two_sites)) = FromLabels Inr (rev two_sites)"
    by (simp_all add: getContainerCaddyfile_def labelsToCaddyfile_def sample_container_def two_sites_selected)
  have m: "\<not> isMatcher ''x''" "\<not> isMatcher ''y''" by (simp_all add: isMatcher_def)
  show ?thesis
    unfolding sample_generation_eq tree two_sites_tree two_sites_rev_tree sum.case two_sites_merge [OF m] two_sites_merge [OF m(2,1)]
      two_sites_text
    by (simp add: write_key_def ContainsAny_def Repeat_def)
qed

text \<open>C6: the labels a generator selects are those that are the prefix, perhaps with \<open>_\<close> and a number, and
  then end or go on with a dot; the prefix is replaced by \<open>caddy\<close>, and no two labels become one.\<close>

theorem filterLabels_correct:
  assumes "distinct (map fst ls)"
  shows "set (filterLabels (CreateGenerator clients opts) ls) =
      {(''caddy'' @ rest, v) | rest v. (LabelPrefix opts @ rest, v) \<in> set ls \<and> selected_rest rest} \<and>
    distinct (map fst (filterLabels (CreateGenerator clients opts) ls))"
  using filterLabels_eq [of "CreateGenerator clients opts" ls] filterLabels_distinct [OF _ assms, of "CreateGenerator clients opts"]
  by (simp add: CreateGenerator_def)

lemma filterLabels_correct_witness:
  "(''caddy_1.respond'', ''hi'') \<in> set (filterLabels (CreateGenerator [] (sample_options True)) [(''caddy_1.respond'', ''hi''), (''caddyx'', [])])"
proof -
  have "selected_rest ''_1.respond''"
    unfolding selected_rest_def by (intro disjI2 exI [of _ "''1''"] exI [of _ "''.respond''"]) (simp add: is_digit_def)
  then show ?thesis
    using filterLabels_correct [of "[(''caddy_1.respond'', ''hi''), (''caddyx'', [])]" "[]" "sample_options True"]
    by (auto intro!: exI [of _ "''_1.respond''"])
qed





section \<open>The loader\<close>

text \<open>C9: with checking on, the loader never gets stuck with a Caddyfile it cannot convert: an update that
  does not panic succeeds, the configuration it keeps is the adapted form of the last Caddyfile,
  and no server is recorded with a version above the last one.\<close>

theorem update_keeps_config_current:
  assumes "config_current (env_adapter env) dl" and "ProcessCaddyfile (options (generator dl))"
    and "env_adapter env ''# Empty caddyfile'' = Inr j" and "update env (dl, w) = Some ((dl', w'), ok)"
  shows "ok \<and> env_adapter env (lastCaddyfile dl') = Inr (lastJSONConfig dl') \<and>
    (\<forall>s. int64_Get (serversVersions dl') s \<le> lastVersion dl') \<and> config_current (env_adapter env) dl'"
  using update_current [OF assms] by (auto simp: config_current_def)

lemma update_keeps_config_current_witness:
  "\<exists>dl. update sample_environment (sample_loader, ()) = Some ((dl, ()), True) \<and> lastJSONConfig dl = lastCaddyfile dl"
proof (rule sample_update)
  fix dl w assume u: "update sample_environment (sample_loader, ()) = Some ((dl, w), True)"
  have "ProcessCaddyfile (options (generator sample_loader))" "env_adapter sample_environment = Inr"
    by (simp_all add: CreateDockerLoader_def CreateGenerator_def sample_environment_def)
  from update_keeps_config_current [OF config_current_start this(1) _ u] u this(2) show ?thesis by auto
qed

text \<open>C10: which servers an update sends the configuration to: those in the list whose recorded version is
  below the last one, each at its \<open>/load\<close> address, with the configuration to which the address of its
  admin interface is added. Sending changes nothing but the recorded versions, and these only to the
  last version.\<close>

theorem servers_get_configuration:
  assumes "idle dl" and "fold (updateServer js (posted post)) servers (dl, (w, [])) = (dl', (w', requests))"
  shows "set requests =
      (\<Union>s \<in> {s \<in> set servers. int64_Get (serversVersions dl) s < lastVersion dl}. set (config_request js dl s)) \<and>
    dl' = dl\<lparr>serversVersions := serversVersions dl'\<rparr> \<and>
    (\<forall>s. int64_Get (serversVersions dl') s \<in> {int64_Get (serversVersions dl) s, lastVersion dl})"
proof -
  obtain v where v: "dl' = dl\<lparr>serversVersions := v\<rparr>"
      "\<forall>s. int64_Get v s = int64_Get (serversVersions dl) s \<or> int64_Get v s = lastVersion dl"
    using update_servers [OF assms(1), of js "posted post" servers "(w, [])"] assms(2) by auto
  then show ?thesis using servers_posts [OF assms] by simp
qed

lemma servers_get_configuration_witness:
  "\<exists>dl' requests. fold (updateServer sample_json (posted (\<lambda>url body w. (Inr 200, w)))) [''s''] (sample_loader\<lparr>lastVersion := 1\<rparr>, ((), [])) =
      (dl', ((), requests)) \<and> set requests = {(''http://s:2019/load'', ''{}'')}"
proof -
  let ?dl = "sample_loader\<lparr>lastVersion := 1\<rparr>"
  have i: "idle ?dl" and v: "int64_Get (serversVersions ?dl) ''s'' = 0"
    by (simp_all add: idle_def CreateDockerLoader_def NewStringBoolCMap_def int64_map.get_new)
  obtain dl' w' requests where f: "fold (updateServer sample_json (posted (\<lambda>url body w. (Inr 200, w)))) [''s''] (?dl, ((), [])) =
      (dl', (w', requests))" by (rule prod_cases3)
  from servers_get_configuration [OF i f] f v show ?thesis
    by (auto simp: config_request_def addAdminListen_def sample_json_def)
qed



text \<open>C12: a Caddyfile the adapter rejects (checking can be off) changes nothing but the files: no request
  is sent, and the configuration and its version stay. But it counts as the last Caddyfile: the
  next update that generates it again does not convert it again, reports success, and goes on with
  the old configuration.\<close>

theorem rejected_caddyfile:
  assumes "generate env dl = Some ((caddyfile, srv), g)" and "caddyfile \<noteq> lastCaddyfile dl"
    and "env_adapter env caddyfile = Inl err"
    and "dl' = (rearmed dl)\<lparr>generator := g, lastCaddyfile := caddyfile\<rparr>" and "generate env dl' = Some ((caddyfile, srv), g')"
  shows "update env (dl, w) = Some ((dl', autosave (env_files env) caddyfile w), False) \<and>
    update env (dl', w2) = map_option (\<lambda>dw. (dw, True))
      (loader_reconcile env (fold (updateServer (env_json env) (env_post env)) srv ((rearmed dl')\<lparr>generator := g'\<rparr>, w2)))"
proof -
  have "publish (env_adapter env) caddyfile ((rearmed dl)\<lparr>generator := g\<rparr>) = (dl', False)"
    using assms(2-4) by (simp add: publish_def)
  moreover have "publish (env_adapter env) caddyfile ((rearmed dl')\<lparr>generator := g'\<rparr>) = ((rearmed dl')\<lparr>generator := g'\<rparr>, True)"
    by (rule publish_same) (simp add: assms(4))
  moreover have "lastCaddyfile dl' = caddyfile" by (simp add: assms(4))
  ultimately show ?thesis using assms(2) by (simp add: update_eq assms(1,5))
qed

lemma rejected_caddyfile_witness:
  "fst (fst (the (update (sample_environment\<lparr>env_adapter := \<lambda>t. Inl ''bad''\<rparr>) (sample_loader, ())))) =
    (rearmed sample_loader)\<lparr>generator := snd (the (generate (sample_environment\<lparr>env_adapter := \<lambda>t. Inl ''bad''\<rparr>) sample_loader)),
      lastCaddyfile := ''# Empty caddyfile''\<rparr>"
proof -
  let ?env = "sample_environment\<lparr>env_adapter := \<lambda>t. Inl ''bad''\<rparr>"
  let ?dl = "(rearmed sample_loader)\<lparr>generator := snd (the (generate ?env sample_loader)), lastCaddyfile := ''# Empty caddyfile''\<rparr>"
  have gen: "generate ?env dl = Some ((''# Empty caddyfile'', [''localhost'']), snd (the (generate ?env dl)))"
    if "options (generator dl) = sample_options True" for dl
    using that by (simp add: GenerateCaddyfile_eq Let_def sample_environment_def refresh_def getIngressNetworks_def
        checkSwarmAvailability_def local_clients_def all_sources_def all_servers_def base_source_def caddyfile_text_eq
        MarshalContainer_def Process_def Server_def)
  have o: "options (generator sample_loader) = sample_options True" "options (generator ?dl) = sample_options True"
    by (simp_all add: CreateDockerLoader_def CreateGenerator_def GenerateCaddyfile_eq Let_def sample_environment_def
        refresh_def getIngressNetworks_def checkSwarmAvailability_def local_clients_def)
  have "lastCaddyfile sample_loader = []" by (simp add: CreateDockerLoader_def)
  then have "update ?env (sample_loader, ()) = Some ((?dl, autosave (env_files ?env) ''# Empty caddyfile'' ()), False)"
    by (intro conjunct1 [OF rejected_caddyfile [OF gen [OF o(1)] _ _ refl gen [OF o(2)]]]) simp_all
  then show ?thesis by simp
qed

text \<open>C13: no event is missed. However the listener and overlapping updates interleave, once a relevant
  event is received and until a generation begins after it, the timer is armed with the throttle
  interval, or the event is being handled, or an update has started and not yet generated.\<close>

theorem no_event_missed:
  assumes "event_reachable n st" and "es_unseen st"
  shows "es_timer st = Throttled \<or> handling (es_listener st) \<or> es_updates st \<noteq> []"
  using event_invariants [OF assms(1)] assms(2) by (simp add: events_ok_def)

lemma no_event_missed_witness:
  "\<exists>st. event_reachable 1 st \<and> es_unseen st \<and> handling (es_listener st) \<and> es_updates st = []"
proof -
  let ?s0 = "\<lparr>es_skip = [False], es_timer = Fired, es_listener = Waiting, es_updates = [Rearm], es_unseen = False\<rparr>"
  let ?s1 = "?s0\<lparr>es_timer := Polling, es_updates := [Clear 0]\<rparr>"
  let ?s2 = "?s1\<lparr>es_updates := [Clear 1]\<rparr>"
  let ?s3 = "?s2\<lparr>es_updates := [Collect]\<rparr>"
  let ?s4 = "?s3\<lparr>es_updates := []\<rparr>"
  let ?e = "\<lparr>event_Type = ''container'', event_Action = ''start''\<rparr>"
  let ?s5 = "?s4\<lparr>es_listener := Check_skip 0 ?e, es_unseen := True\<rparr>"
  have rel: "relevant_event ?e" by (simp add: relevant_event_def)
  have "event_reachable 1 ?s0" using event_start [of 1] by simp
  from event_next [OF this, of ?s1] rearm [of 0 ?s0] have "event_reachable 1 ?s1" by simp
  from event_next [OF this, of ?s2] clear [of 0 ?s1 0] have "event_reachable 1 ?s2" by simp
  from event_next [OF this, of ?s3] cleared [of 0 ?s2 1] have "event_reachable 1 ?s3" by simp
  from event_next [OF this, of ?s4] collect [of 0 ?s3] have "event_reachable 1 ?s4" by simp
  from event_next [OF this, of ?s5] receive [of ?s4 0 ?e] rel have r: "event_reachable 1 ?s5" by simp
  from no_event_missed [OF r] r rel show ?thesis by (intro exI [of _ ?s5]) (simp add: handling_def)
qed

text \<open>C14: however the goroutines of overlapping updates interleave, the version recorded for a server is
  never above the last version, and the server took a configuration that was published as this
  version or later.\<close>

theorem recorded_versions_safe:
  assumes "reachable st" and "v = int64_Get (sh_versions (shared_state st)) server"
  shows "0 \<le> v \<and> v \<le> sh_version (shared_state st) \<and>
    (0 < v \<longrightarrow> (\<exists>configJSON. published_since (history st) v configJSON \<and>
       (server, configJSON) \<in> set (sh_accepted (shared_state st))))"
  using reachable_inv [OF assms(1)] assms(2) by (simp add: system_inv_def version_ok_def Let_def)

lemma recorded_versions_safe_witness:
  "\<exists>st. reachable st \<and> int64_Get (sh_versions (shared_state st)) ''s'' = 1 \<and>
     (\<exists>configJSON. published_since (history st) 1 configJSON \<and> (''s'', configJSON) \<in> set (sh_accepted (shared_state st)))"
proof -
  obtain st where r: "reachable st" and v: "1 = int64_Get (sh_versions (shared_state st)) ''s''"
  proof (rule that)
    let ?as = "[Publish_config ''old'', Bump_version, Start_worker ''s''] @ replicate 8 (Step_worker 0 Accepted)"
    show "reachable (fold act ?as start_system)" by (rule reachable_acts [OF reachable_start])
    show "1 = int64_Get (sh_versions (shared_state (fold act ?as start_system))) ''s''" by code_simp
  qed
  from recorded_versions_safe [OF r v] r v show ?thesis by auto
qed

text \<open>C15: checking and setting the flag of a server are two steps, and with them an old configuration can
  stay for good. A server that is listed twice gets two goroutines; the first one to finish clears
  the flag, a slow request of the other one arrives after the configuration of the next update, and
  in the end the server runs the old configuration while the last version is recorded for it. Any
  later goroutine then leaves it alone.\<close>

theorem old_configuration_stays:
  "\<exists>st. reachable st \<and> list_all (\<lambda>w. snd w = Finished) (workers st) \<and> \<not> publishing st \<and>
    int64_Get (sh_versions (shared_state st)) ''s'' = sh_version (shared_state st) \<and>
    sh_json (shared_state st) = ''new'' \<and> sh_runs (shared_state st) ''s'' = Some ''old'' \<and>
    sh_runs (snd (run_alone Accepted ''s'' (shared_state st))) ''s'' = Some ''old''"
proof -
  let ?st = "fold act two_goroutines start_system"
  have "reachable ?st" by (rule reachable_acts [OF reachable_start])
  moreover have "list_all (\<lambda>w. snd w = Finished) (workers ?st) \<and> \<not> publishing ?st \<and>
    int64_Get (sh_versions (shared_state ?st)) ''s'' = sh_version (shared_state ?st) \<and>
    sh_json (shared_state ?st) = ''new'' \<and> sh_runs (shared_state ?st) ''s'' = Some ''old'' \<and>
    sh_runs (snd (run_alone Accepted ''s'' (shared_state ?st))) ''s'' = Some ''old''"
    by code_simp
  ultimately show ?thesis by blast
qed



text \<open>C17: events are heard from one client at a time. However many a client delivers between two updates,
  the timer is rearmed at most once, for its first relevant event; and as long as the channel of a
  client reports no error, nothing that the clients after it deliver has any effect.\<close>

theorem events_of_first_client:
  assumes "i < length (skipEvents dl)" and "\<forall>err. Error err \<notin> set rs"
  shows "listenEvents i (rs # streams) dl =
    (if \<not> skipEvents dl ! i \<and> list_ex relevant_event (heard_events rs)
     then dl\<lparr>skipEvents := (skipEvents dl)[i := True], timer := EventThrottleInterval (dl_options dl)\<rparr> else dl, False)"
  using listenEvents_blocked [OF assms(2)] listen_client_eq [OF assms(1)] by simp

lemma events_of_first_client_witness:
  "listenEvents 0 [[Event \<lparr>event_Type = ''image'', event_Action = ''pull''\<rparr>],
     [Event \<lparr>event_Type = ''container'', event_Action = ''start''\<rparr>]] (sample_loader\<lparr>skipEvents := [False, False]\<rparr>) =
   (sample_loader\<lparr>skipEvents := [False, False]\<rparr>, False)"
  using events_of_first_client [of 0 "sample_loader\<lparr>skipEvents := [False, False]\<rparr>"
      "[Event \<lparr>event_Type = ''image'', event_Action = ''pull''\<rparr>]"]
  by (simp add: relevant_event_def)

text \<open>C18: after a successful start the lists that are indexed by clients fit together: there is a socket
  name and a flag for every client, so listening to events stays in range; the generator was given
  only the clients of the local sockets, which come first.\<close>

theorem Start_indices:
  assumes "Start env (dl, w) = (Inr (Some clients), dl', w')"
  shows "length (DockerSockets (dl_options dl')) = length clients \<and> length (skipEvents dl') = length clients \<and>
    (\<exists>locals remotes. clients = locals @ remotes \<and> locals \<noteq> [] \<and> length (swarmIsAvailable (generator dl')) = length locals)"
  using Start_props [OF assms] by blast

lemma Start_indices_witness:
  "\<exists>clients dl'. Start \<lparr>start_loadEnvFile = (\<lambda>f. None), start_connect = (\<lambda>s c v. Inr sample_sdk), start_getenv = (\<lambda>v. []),
      start_hostname = Inr ''manager'', start_newRemote = (\<lambda>u t. Inr (WrapClient sample_sdk)), start_send = sample_firewall\<rparr>
      (sample_loader, ()) = (Inr (Some clients), dl', ()) \<and> length (skipEvents dl') = 2"
proof -
  let ?env = "\<lparr>start_loadEnvFile = (\<lambda>f. None), start_connect = (\<lambda>s c v. Inr sample_sdk), start_getenv = (\<lambda>v. []),
      start_hostname = Inr ''manager'', start_newRemote = (\<lambda>u t. Inr (WrapClient sample_sdk)), start_send = sample_firewall\<rparr>"
  have "parseRemoteHosts [(''gateway.remote.1.url'', ''http://b'')] = [\<lparr>re_URL = ''http://b'', re_Token = [], re_Name = []\<rparr>]"
    by code_simp
  then have d: "discoverRemoteHosts (Inr ''manager'') (\<lambda>u t. Inr (WrapClient sample_sdk)) ([WrapClient sample_sdk], [[]]) =
      ([WrapClient sample_sdk, WrapClient sample_sdk], [[], ''http://b''])"
    by (simp add: discoverRemoteHosts_def WrapClient_def sample_sdk_def)
  have opts: "EnvFile (sample_options True) = []" "DockerSockets (sample_options True) = []"
    by (simp_all add: sample_options_def createOptions_def default_flags_def env_or_def list_option_def)
  obtain dl' where s: "Start ?env (sample_loader, ()) = (Inr (Some [WrapClient sample_sdk, WrapClient sample_sdk]), dl', ())"
    by (simp add: Start_def CreateDockerLoader_def opts Let_def d NewClientFromEnv_def NewClientWithURL_def Enabled_def)
  from Start_indices [OF s] s show ?thesis by auto
qed

section \<open>The gateway\<close>

text \<open>C19: after a run every container that owns rules is running: rules of stopped containers are
  given up.\<close>

theorem reconcile_owns_only_running:
  assumes "reconcileGateway send c caddyIP labelPrefix hosts known running s w = Inr r'" and "Enabled c"
    and "iteration_orders caddyIP hosts s known running"
  shows "dom (dnsUUIDs (gstate r')) \<union> dom (natUUIDs (gstate r')) \<subseteq> dom (collect_current caddyIP hosts Map.empty)"
  using assms by (rule reconcile_tracks_running)

lemma reconcile_owns_only_running_witness:
  "\<exists>r'. sample_outcome = Inr r' \<and>
    dom (dnsUUIDs (gstate r')) \<union> dom (natUUIDs (gstate r')) \<subseteq> dom (collect_current ''10.0.0.1'' sample_hosts Map.empty)"
proof (rule sample_run)
  fix r' assume r: "sample_outcome = Inr r'"
  from reconcile_owns_only_running [OF r sample_enabled sample_orders] r show ?thesis by blast
qed

text \<open>C20: a run sends a delete request for exactly the rules of the containers that are known but not
  running, in the order of the loop: nothing of a running container, and nothing that is not ours,
  is deleted.\<close>

theorem reconcile_deletes_exactly:
  assumes "reconcileGateway (logged send) c caddyIP labelPrefix hosts known running s (v, []) = Inr r'" and "Enabled c"
    and "iteration_orders caddyIP hosts s known running"
  shows "filter (is_delete c) (sent r') = concat (map (container_deletes c s)
    (filter (\<lambda>cid. collect_current caddyIP hosts Map.empty cid = None) known))"
  using assms by (rule reconcile_deletes)

lemma reconcile_deletes_exactly_witness:
  "\<exists>r'. sample_outcome = Inr r' \<and>
    filter (is_delete sample_client) (sent r') = [del_dns_req sample_client ''u0'']"
proof (rule sample_run)
  fix r' assume r: "sample_outcome = Inr r'"
  show ?thesis
    using r reconcile_deletes_exactly [OF r sample_enabled sample_orders] sample_current [of "''10.0.0.1''"]
    by (auto simp: container_deletes_def sample_state_def uuids_def)
qed

text \<open>C21: rules that a running container already has are kept as they are.\<close>

theorem reconcile_keeps_rules:
  assumes "reconcileGateway send c caddyIP labelPrefix hosts known running s w = Inr r'"
    and "cid \<in> dom (collect_current caddyIP hosts Map.empty)"
  shows "(HasDNS cid s \<longrightarrow> dnsUUIDs (gstate r') cid = dnsUUIDs s cid) \<and>
         (HasNAT cid s \<longrightarrow> natUUIDs (gstate r') cid = natUUIDs s cid)"
  using reconcile_keeps [OF assms] by blast

lemma reconcile_keeps_rules_witness:
  "\<exists>r'. sample_outcome = Inr r' \<and>
    dnsUUIDs (gstate r') ''0123456789ab'' = Some [''u9'']"
proof (rule sample_run)
  fix r' assume r: "sample_outcome = Inr r'"
  have "HasDNS ''0123456789ab'' sample_state" by (simp add: HasDNS_def uuids_def sample_state_def)
  then show ?thesis
    using r reconcile_keeps_rules [OF r sample_current(1)] by (auto simp: sample_state_def)
qed

text \<open>C22: in the requests of a run every change of NAT rules comes after a savepoint, and the changes
  are applied by one request at the end, exactly when a savepoint gave a revision.\<close>

theorem reconcile_savepoint_protocol:
  assumes "reconcileGateway (logged send) c caddyIP labelPrefix hosts known running s (v, []) = Inr r'" and "Enabled c"
  shows "savepoint_first c (sent r') \<and>
    (\<exists>tr. (\<forall>q \<in> set tr. \<not> is_apply c q) \<and>
      sent r' = tr @ (if natRevision r' = [] then [] else [apply_req c (natRevision r')]))"
  using reconcile_protocol [OF assms] by blast

lemma reconcile_savepoint_protocol_witness:
  "\<exists>r'. sample_outcome = Inr r' \<and>
    savepoint_first sample_client (sent r')"
proof (rule sample_run)
  fix r' assume r: "sample_outcome = Inr r'"
  from reconcile_savepoint_protocol [OF r sample_enabled] r show ?thesis by blast
qed



text \<open>C24: at a start the rules found on the firewall are adopted: each container gets exactly the UUIDs
  of the rows that are ours and name it, in the order of the rows.\<close>

theorem startup_adopts_rules:
  assumes "Enabled c" and "cid \<noteq> []"
    and "send (newGET c ''/api/unbound/settings/search_host_override'') w = (Inr res1, w1)"
    and "send (newGET c ''/api/firewall/d_nat/search_rule'') w1 = (Inr res2, w2)"
  shows "\<exists>s. ReconcileOnStartup send c NewState w = (None, s, w2) \<and>
    uuids (dnsUUIDs s) cid = rows_of cid (res_Rows res1) \<and> uuids (natUUIDs s) cid = rows_of cid (res_Rows res2)"
proof -
  have "SearchHostOverrides send c w = (Inr (res_Rows res1), w1)" "SearchNATRules send c w1 = (Inr (res_Rows res2), w2)"
    using assms(3,4) by (simp_all add: SearchHostOverrides_def SearchNATRules_def do_request_def)
  moreover have "uuids Map.empty cid = []" by (simp add: uuids_def)
  ultimately show ?thesis
    using assms(1,2) by (simp add: ReconcileOnStartup_def NewState_def Let_def uuids_adopt_rows)
qed

lemma startup_adopts_rules_witness:
  "\<exists>s. ReconcileOnStartup sample_firewall sample_client NewState () = (None, s, ()) \<and>
    uuids (dnsUUIDs s) ''web'' = [] \<and> uuids (natUUIDs s) ''web'' = []"
  using startup_adopts_rules [OF sample_enabled, of "''web''" sample_firewall "()"]
  by (simp add: sample_firewall_def rows_of_def)

text \<open>C25: the ownership mark survives: from the description of a rule made for a container, with any
  text of the label behind it, the container is recognised again.\<close>

theorem ownership_roundtrip:
  assumes "container_id cid"
  shows "OwnedByUs (MakeDescription cid extra) \<and> extractContainerID (MakeDescription cid extra) = cid"
  using extract_MakeDescription [OF assms] OwnedByUs_MakeDescription by blast

lemma ownership_roundtrip_witness:
  "extractContainerID (MakeDescription ''0123456789ab'' ''my game server'') = ''0123456789ab''"
  using ownership_roundtrip [of "''0123456789ab''" "''my game server''"] by (simp add: container_id_def)

text \<open>C26: the NAT rules built from labels do not depend on the order of the label map, unless two
  labels set the same field of the same rule; and every rule has a protocol and both ports, points
  to the host of the container and carries its mark.\<close>

theorem buildNATRules_correct:
  assumes "no_clash ''gateway.portforward.'' labels" and "mset labels = mset labels'"
  shows "buildNATRules labels hostIP cid = buildNATRules labels' hostIP cid \<and>
    (\<forall>r \<in> set (buildNATRules labels hostIP cid).
       Protocol r \<noteq> [] \<and> Port (Destination r) \<noteq> [] \<and> LocalPort r \<noteq> [] \<and> Target r = hostIP \<and>
       Interface r = ''wan'' \<and> (\<exists>extra. Description r = MakeDescription cid extra))"
  using buildNATRules_order [OF assms] buildNATRules_rule by blast

lemma buildNATRules_correct_witness:
  "buildNATRules [(''gateway.portforward.1.dst_port'', ''8080''), (''gateway.portforward.1.src_port'', ''80''),
     (''gateway.portforward.1.protocol'', ''tcp'')] ''10.0.0.2'' ''0123456789ab'' =
   [\<lparr>Interface = ''wan'', Protocol = ''tcp'', Source = \<lparr>Network = ''any'', Port = []\<rparr>,
     Destination = \<lparr>Network = [], Port = ''80''\<rparr>, Target = ''10.0.0.2'', LocalPort = ''8080'',
     Description = ''[homelab-manager] 0123456789ab''\<rparr>]"
proof -
  let ?l = "[(''gateway.portforward.1.protocol'', ''tcp''), (''gateway.portforward.1.src_port'', ''80''),
     (''gateway.portforward.1.dst_port'', ''8080'')]"
  have "buildNATRules ?l ''10.0.0.2'' ''0123456789ab'' =
     [\<lparr>Interface = ''wan'', Protocol = ''tcp'', Source = \<lparr>Network = ''any'', Port = []\<rparr>,
     Destination = \<lparr>Network = [], Port = ''80''\<rparr>, Target = ''10.0.0.2'', LocalPort = ''8080'',
     Description = ''[homelab-manager] 0123456789ab''\<rparr>]" by code_simp
  moreover have "no_clash ''gateway.portforward.'' ?l"
    unfolding no_clash_def by code_simp
  ultimately show ?thesis
    using buildNATRules_correct [of ?l "[(''gateway.portforward.1.dst_port'', ''8080''),
      (''gateway.portforward.1.src_port'', ''80''), (''gateway.portforward.1.protocol'', ''tcp'')]"
      "''10.0.0.2''" "''0123456789ab''"] by simp
qed





section \<open>From labels to a container\<close>

text \<open>C29: the Caddyfile made from labels does not depend on the order in which Go iterates over the
  label map: for every order the conversion fails, or for every order it succeeds and the written
  text is the same.\<close>

theorem FromLabels_iteration_order:
  assumes "distinct (map fst labels)" and "mset labels = mset labels'"
  shows "case FromLabels pv labels of
      Inl e \<Rightarrow> \<exists>e'. FromLabels pv labels' = Inl e'
    | Inr cs \<Rightarrow> \<exists>ds. FromLabels pv labels' = Inr ds \<and> MarshalContainer ds = MarshalContainer cs"
proof (cases "FromLabels pv labels")
  case (Inl e)
  have "distinct (map fst labels')" using assms by (metis distinct_count_atmost_1 mset_map set_map set_mset_mset)
  then have "\<nexists>ds. FromLabels pv labels' = Inr ds"
    using FromLabels_perm [of labels' labels pv] assms(2) Inl by auto
  then show ?thesis using Inl by (cases "FromLabels pv labels'") auto
next
  case (Inr cs)
  then show ?thesis using FromLabels_perm [OF assms Inr] Marshal_perm by fastforce
qed

lemma FromLabels_iteration_order_witness:
  "\<exists>ds. FromLabels Inr [(''caddy.0_respond'', []), (''caddy'', [])] = Inr ds \<and>
     MarshalContainer ds = MarshalContainer [Block MaxInt32 [] [Block 0 [''respond''] []]]"
proof -
  have "FromLabels Inr [(''caddy'', []), (''caddy.0_respond'', [])] = Inr [Block MaxInt32 [] [Block 0 [''respond''] []]]"
    by code_simp
  then show ?thesis
    using FromLabels_iteration_order [of "[(''caddy'', []), (''caddy.0_respond'', [])]"
        "[(''caddy.0_respond'', []), (''caddy'', [])]" Inr] by simp
qed

text \<open>C30: the tree made from labels is exactly the one the labels describe: its blocks are in
  bijection with the label paths and the paths above them, each block hangs below the block of its
  parent path, has the order written in the path, and the name (below the root) followed by the
  arguments of its label as keys.\<close>

theorem FromLabels_tree:
  assumes "distinct (map fst labels)" and "FromLabels pv labels = Inr cs"
  shows "\<exists>pos. dom pos = label_paths labels \<and>
    (\<forall>p q x. pos p = Some x \<and> pos q = Some x \<longrightarrow> p = q) \<and>
    (\<forall>p x. pos p = Some x \<longrightarrow>
       node_at cs x = Some (path_order p, label_keys pv labels p) \<and> hangs_at parent_of pos p x) \<and>
    (\<forall>x. node_at cs x \<noteq> None \<longrightarrow> (\<exists>p. pos p = Some x))"
  using FromLabels_spec [OF assms(1), of pv] assms(2) unfolding container_store.labelled_def by auto

lemma FromLabels_tree_witness:
  "\<exists>pos. dom pos = label_paths [(''caddy'', []), (''caddy.0_respond'', [])] \<and>
    (\<forall>p x. pos p = Some x \<longrightarrow>
       node_at [Block MaxInt32 [] [Block 0 [''respond''] []]] x =
         Some (path_order p, label_keys Inr [(''caddy'', []), (''caddy.0_respond'', [])] p))"
proof -
  have "FromLabels Inr [(''caddy'', []), (''caddy.0_respond'', [])] = Inr [Block MaxInt32 [] [Block 0 [''respond''] []]]"
    by code_simp
  note eq = this
  have d: "distinct (map fst [(''caddy'', []), (''caddy.0_respond'', [] :: string)])" by simp
  from FromLabels_tree [OF d eq] show ?thesis
    by (elim exE conjE) (rule exI, rule conjI, assumption, blast)
qed

text \<open>C31: what the conversion of labels gives. If every label is fine (its path and the paths above it have
  the form of a label path, its template expands and its text splits into arguments) it succeeds.
  Otherwise it ends at the first label that is not, in the order of the iteration, and this is a
  panic exactly if the path of that label is the fault. A label that ends in a dot has such a path.\<close>

theorem FromLabels_outcome:
  assumes "distinct (map fst labels)"
  shows "(case FromLabels pv labels of
      Inr cs \<Rightarrow> list_all (label_ok pv) labels
    | Inl e \<Rightarrow> \<exists>lv. find (\<lambda>lv. \<not> label_ok pv lv) labels = Some lv \<and> (e = NilMatch \<longleftrightarrow> \<not> path_ok (fst lv))) \<and>
    \<not> path_ok ''caddy.''"
proof -
  have "parsePath (escape_dots ''caddy.'') = None" by code_simp
  then have "\<not> path_ok ''caddy.''" unfolding path_ok_def by (intro notI) (auto dest: bspec [OF _ path_in_ancestors])
  then show ?thesis using FromLabels_spec [OF assms, of pv] by (cases "FromLabels pv labels") (auto simp: list_all_iff)
qed

lemma FromLabels_outcome_witness: "FromLabels Inr [(''caddy'', []), (''caddy.'', [])] = Inl NilMatch"
proof -
  have "path_ok ''caddy''" by code_simp
  then have ok: "label_ok Inr (''caddy'', [])" by (simp add: label_ok_def label_args_def parseArgs_def)
  have d: "distinct (map fst [(''caddy'', []), (''caddy.'', [] :: string)])" by simp
  show ?thesis
    using FromLabels_outcome [OF d, of Inr] ok
    by (cases "FromLabels Inr [(''caddy'', []), (''caddy.'', [])]") (auto simp: label_ok_def split: if_splits)
qed

text \<open>C32: what the regular expression for label paths accepts, and what it yields. The path is cut at
  the last dot; there is no match if the last part is empty, or if there is a dot and the part
  before it is empty or has a newline. The order is the number in front of an underscore (the
  default is \<open>MaxInt32\<close>), and a number behind the last underscore is dropped from the name.\<close>

theorem parsePath_closed_form:
  assumes "CHR ''.'' \<notin> set r"
  shows "parsePath r = (if r = [] then None else Some ([], label_order r, label_name r)) \<and>
    parsePath (p @ CHR ''.'' # r) =
      (if p = [] \<or> CHR 0x0A \<in> set p \<or> r = [] then None else Some (p, label_order r, label_name r))"
  using parsePath_plain [OF assms] parsePath_dotted [OF assms] by simp

lemma parsePath_closed_form_witness:
  "parsePath ''caddy.7_route_2'' = Some (''caddy'', 7, ''route'')"
proof -
  have "label_order ''7_route_2'' = 7" "label_name ''7_route_2'' = ''route''" by code_simp+
  then show ?thesis using parsePath_closed_form [of "''7_route_2''" "''caddy''"] by simp
qed

section \<open>Ordering, writing and reading Caddyfiles\<close>

text \<open>C33: \<open>sort\<close> is given a legal comparator and sorts. The comparison of blocks is a strict total order: its
  results are -1, 0 and 1, exchanging the arguments changes the sign, only equal blocks compare as 0, and
  "before" is transitive. Sorting sorts every level, keeps the tree up to the order of siblings, puts
  global blocks before snippets, snippets before matchers and matchers before the other blocks, and does
  nothing the second time.\<close>

theorem sort_container_correct:
  "compare_blocks a b \<in> {-1, 0, 1} \<and> compare_blocks b a = - compare_blocks a b \<and>
   (compare_blocks a b = 0 \<longleftrightarrow> a = b) \<and>
   (compare_blocks a b = -1 \<and> compare_blocks b c = -1 \<longrightarrow> compare_blocks a c = -1) \<and>
   sorted_container (sort_container cs) \<and> container_perm (sort_container cs) cs \<and>
   sorted (map rank (sort_container cs)) \<and> sort_container (sort_container cs) = sort_container cs"
  using compare_blocks_range [of a b] compare_blocks_flip [of b a] compare_blocks_0 [of a b] less_trans [of a b c]
  by (simp add: sign_values_def less_block_def sorted_sort_container container_perm_iff rank_sort_container)

lemma sort_container_correct_witness:
  "compare_blocks (Block 1 [''(log)''] []) (Block 0 [''@ws''] []) = -1 \<and>
   compare_blocks (Block 1 [''(log)''] []) (Block 0 [''encode'', ''gzip''] []) = -1"
proof -
  have 1: "compare_blocks (Block 1 [''(log)''] []) (Block 0 [''@ws''] []) = -1"
    and 2: "compare_blocks (Block 0 [''@ws''] []) (Block 0 [''encode'', ''gzip''] []) = -1" by code_simp+
  then show ?thesis
    using sort_container_correct [of "Block 1 [''(log)''] []" "Block 0 [''@ws''] []" "Block 0 [''encode'', ''gzip''] []"]
    by simp
qed

text \<open>C34: what \<open>Marshal\<close> writes is read back by \<open>Unmarshal\<close> as the same tree: sorted, and with
  orders that number the children of each block. The keys have to be of the kind the writer's
  quoting represents.\<close>

theorem Unmarshal_Marshal_roundtrip:
  assumes "cs \<noteq> []" and "\<forall>b \<in> set cs. wf_block b"
  shows "Unmarshal (MarshalContainer cs) = Inr (renumber_all 0 (sort_container cs))"
  using assms by (rule Unmarshal_Marshal)

lemma Unmarshal_Marshal_roundtrip_witness:
  "Unmarshal (MarshalContainer [Block 7 [''a.lan''] [Block 3 [''respond'', ''hi you''] []]]) =
   Inr (renumber_all 0 (sort_container [Block 7 [''a.lan''] [Block 3 [''respond'', ''hi you''] []]]))"
  by (rule Unmarshal_Marshal_roundtrip)
    (simp_all add: wf_key_def Let_def plain_key_def IsSpace_def)

text \<open>C35: parsing is total, and its failures are known: an empty input is the error of the reader,
  a closing brace that closes nothing is reported with its line, and no other error can occur; the
  current block is never nil where it is used.\<close>

theorem Unmarshal_result:
  "(case Unmarshal input of
      Inl e \<Rightarrow> (input = [] \<and> e = ReadError ''EOF'') \<or>
        (\<exists>tokens n. allTokens [] input = Inr tokens \<and> unexpected_brace 0 tokens = Some n \<and> e = UnexpectedBrace n)
    | Inr cs \<Rightarrow> (\<exists>tokens. allTokens [] input = Inr tokens \<and> unexpected_brace 0 tokens = None))"
proof (cases "allTokens [] input")
  case (Inl e)
  then have "input = [] \<and> e = ''EOF''"
    by (auto simp: allTokens_def load_def split: list.splits sum.splits if_splits)
  with Inl show ?thesis by (simp add: Unmarshal_def)
next
  case (Inr tokens)
  then show ?thesis
    using parse_tokens_result [OF parse_inv_init, of tokens]
    by (auto simp: Unmarshal_def parseContainer_def init_state_def split: option.splits sum.splits)
qed

text \<open>C36: the loop that reads tokens ends: after at most as many tokens as the input has bytes, \<open>next\<close>
  delivers no more, and the tokens read are those of \<open>allTokens\<close>.\<close>

theorem token_loop_terminates:
  assumes "load input = Inr l"
  shows "\<exists>l' tokens. token_loop filename l = Some (False, l', tokens) \<and> allTokens filename input = Inr tokens \<and>
    length tokens \<le> length input"
  using assms by (rule token_loop_ends)

lemma token_loop_terminates_witness: "\<exists>l s. load ''a {'' = Inr l \<and> token_loop [] l = Some s \<and> fst s = False"
proof -
  obtain l where l: "load ''a {'' = Inr l" by (cases "load ''a {''") (auto simp: load_def split: list.splits)
  from token_loop_terminates [OF this, of "[]"] l show ?thesis by auto
qed

section \<open>Merging and checking Caddyfiles\<close>

text \<open>C37: merging loses nothing. The blocks of the receiver stay where they are with their order, and
  only gain keys and children at the end; every block of the other container is covered by a
  block of the result with the same first key, its keys and its children (recursively). Two proxies
  for the same matcher become one that has the upstreams of both, in order: this is how the
  containers of one site share a \<open>reverse_proxy\<close>.\<close>

theorem Merge_correct:
  "extends_all as (Merge as bs) \<and> (\<forall>b \<in> set bs. \<exists>c \<in> set (Merge as bs). covers b c) \<and>
   (proxy_like p \<and> isMatcher m \<longrightarrow>
     Merge [Block o1 (p # m # us) as] [Block o2 (p # m # vs) bs] = [Block o1 (p # m # us @ vs) (Merge as bs)])"
  using Merge_extends(1) Merge_covers(1) Merge_proxies by blast

lemma Merge_correct_witness:
  "(\<exists>c \<in> set [Block 0 [''a''] [Block 0 [''b''] []]]. covers (Block 1 [''a''] [Block 0 [''b''] []]) c) \<and>
   Merge [Block 0 [''reverse_proxy'', ''/api'', ''10.0.0.1''] []] [Block 0 [''reverse_proxy'', ''/api'', ''10.0.0.2''] []] =
   [Block 0 [''reverse_proxy'', ''/api'', ''10.0.0.1'', ''10.0.0.2''] []]"
proof
  have "Merge [Block 0 [''a''] []] [Block 1 [''a''] [Block 0 [''b''] []]] = [Block 0 [''a''] [Block 0 [''b''] []]]"
    by code_simp
  then show "\<exists>c \<in> set [Block 0 [''a''] [Block 0 [''b''] []]]. covers (Block 1 [''a''] [Block 0 [''b''] []]) c"
    using Merge_correct [of "[Block 0 [''a''] []]" "[Block 1 [''a''] [Block 0 [''b''] []]]"] by simp
  show "Merge [Block 0 [''reverse_proxy'', ''/api'', ''10.0.0.1''] []] [Block 0 [''reverse_proxy'', ''/api'', ''10.0.0.2''] []] =
     [Block 0 [''reverse_proxy'', ''/api'', ''10.0.0.1'', ''10.0.0.2''] []]"
    using Merge_correct [of "[]" "[]" "''reverse_proxy''" "''/api''" 0 "[''10.0.0.1'']" 0 "[''10.0.0.2'']"]
    by (simp add: proxy_like_def isMatcher_def)
qed

text \<open>C38: \<open>Process\<close> accounts for every block of a Caddyfile that parses: there are a list of kept and a list
  of removed blocks that together are the parsed blocks, the result is the text of the kept ones, and
  the log has one message with the text of the block and the error of the adapter for each removed
  one. The result is empty or accepted by the adapter.\<close>

theorem Process_accounts_for_blocks:
  assumes "content \<noteq> []" and "Unmarshal content = Inr cs"
  shows "\<exists>kept removed. mset kept + mset (map snd removed) = mset (sort_container cs) \<and>
    Process Adapt content = (write_container kept 0, removal_log removed) \<and>
    (write_container kept 0 = [] \<or> Adapt (write_container kept 0) = None)"
  using keep_valid_mset [of Adapt "[]" "sort_container cs"] keep_valid_accepted [of "[]" Adapt "sort_container cs"]
  by (force simp: Process_parsed [OF assms])

lemma Process_accounts_for_blocks_witness:
  "\<exists>kept removed. mset kept + mset (map snd removed) = mset (sort_container (renumber_all 0 (sort_container [Block 0 [''a''] []]))) \<and>
    Process (\<lambda>s. Some ''bad'') (MarshalContainer [Block 0 [''a''] []]) = (write_container kept 0, removal_log removed)"
proof -
  have cs: "[Block 0 [''a''] []] \<noteq> []" "\<forall>b \<in> set [Block 0 [''a''] []]. wf_block b"
    by (simp_all add: wf_key_def Let_def plain_key_def IsSpace_def)
  from Process_accounts_for_blocks [OF Marshal_nonempty [OF cs] Unmarshal_Marshal [OF cs], of "\<lambda>s. Some ''bad''"]
  show ?thesis by blast
qed



section \<open>The command\<close>

text \<open>C40: the options and the command, whatever the flags and the environment are: the mode is one of the
  three, and the label of controlled servers belongs to the prefix. The command goes on forever
  exactly when Caddy runs, unless the mode is \<open>controller\<close>, and the loader starts, unless it is
  \<open>server\<close>; else its exit code is 1. The address given to Caddy names its network.\<close>

theorem options_well_formed:
  fixes P getenv flags
  defines "opts \<equiv> createOptions P getenv flags" and "mode \<equiv> env_or (getenv ''CADDY_DOCKER_MODE'') (flag_mode flags)"
  shows "Mode opts \<in> {1, 2, 3} \<and>
    ControlledServersLabel opts = LabelPrefix opts @ ''_controlled_server'' \<and>
    (cmdFunc run_caddy start_loader stop_caddy interfaces opts = None \<longleftrightarrow>
      (mode = ''controller'' \<or> run_caddy (getAdminListen interfaces opts) = None) \<and> (mode = ''server'' \<or> start_loader opts = None)) \<and>
    map_option fst (cmdFunc run_caddy start_loader stop_caddy interfaces opts) \<in> {None, Some 1} \<and>
    CHR ''/'' \<in> set (getAdminListen interfaces opts)"
proof -
  have m: "Mode opts = mode_of mode" by (simp add: opts_def mode_def createOptions_def Let_def)
  have "AdminListen opts = [] \<or> CHR ''/'' \<in> set (AdminListen opts)"
    using createOptions_shape(3) [of P getenv flags] by (simp add: opts_def)
  from getAdminListen_network [OF this] have a: "CHR ''/'' \<in> set (getAdminListen interfaces opts)" .
  have "cmdFunc run_caddy start_loader stop_caddy interfaces opts = None \<longleftrightarrow>
      (mode = ''controller'' \<or> run_caddy (getAdminListen interfaces opts) = None) \<and> (mode = ''server'' \<or> start_loader opts = None)"
    unfolding cmdFunc_None m mode_bits by simp
  with a cmdFunc_code [of run_caddy start_loader stop_caddy interfaces opts] createOptions_shape(1,2) [of P getenv flags]
  show ?thesis unfolding opts_def [symmetric] by blast
qed

end
